theory Spec2Isabelle
  imports Complex_Main "HOL-Library.Product_Lexorder"
begin

section \<open>Stock reservations on sale order lines (stock_reserve_sale/model/sale.py)\<close>

text \<open>
  The module extends the host framework's models \<^verbatim>\<open>sale.order\<close> and
  \<^verbatim>\<open>sale.order.line\<close>. The embedding keeps the records of the host's database in an
  explicit environment that every method takes and returns. A recordset is the list of
  the ids it holds. A method that raises returns the environment as it is at the moment
  of the raise together with the error: the host's transaction handling is not part of
  the module and is not modelled.

  Python names that start with an underscore lose it (\<^verbatim>\<open>_get_line_rule\<close> is
  \<open>get_line_rule\<close>), since an Isabelle name starts with a letter. The constant \<open>False\<close>
  that the host uses for an unset field is \<open>None\<close>.
\<close>

subsection \<open>Data model\<close>

datatype error = UserError string | MissingError | HostError string

text \<open>
  The product of a line with the fields the module reads: \<^verbatim>\<open>id\<close>, \<^verbatim>\<open>type\<close>,
  \<^verbatim>\<open>route_ids\<close> and \<^verbatim>\<open>categ_id.total_route_ids\<close> (both as lists of route ids).
\<close>

record product =
  product_ref :: nat
  product_type :: string
  route_ids :: "nat list"
  categ_total_route_ids :: "nat list"

record warehouse =
  wh_id :: nat
  wh_route_ids :: "nat list"

record procurement_rule =
  route_id :: "nat option"
  route_sequence :: int
  sequence :: int
  rule_warehouse_id :: "nat option"
  procure_method :: string

record procurement_group =
  pg_name :: string
  move_type :: string
  sale_id :: nat
  pg_partner_id :: "nat option"

record sale_order =
  so_name :: string
  so_state :: string
  warehouse_id :: "warehouse option"
  procurement_group_id :: "nat option"
  picking_policy :: string
  partner_shipping_id :: "nat option"
  has_stock_reservation :: bool
  so_is_stock_reservable :: bool

text \<open>
  \<open>stock_owner_id\<close> belongs to an optional module: \<open>None\<close> is the attribute being
  absent (Python's AttributeError), \<open>Some None\<close> the field being unset. Quantities and
  prices are only ever copied by this module, so the rationals stand for the host's
  floats.
\<close>

record sale_order_line =
  order_id :: nat
  name :: string
  state :: string
  product_id :: "product option"
  product_uom :: "nat option"
  product_uom_qty :: rat
  price_unit :: rat
  stock_owner_id :: "nat option option"
  is_stock_reservable :: bool

text \<open>The values \<^verbatim>\<open>_prepare_stock_reservation\<close> gives a reservation, key by key.\<close>

record stock_reservation =
  res_product_id :: "nat option"
  res_product_uom :: "nat option"
  res_product_uom_qty :: rat
  date_validity :: "string option"
  res_name :: string
  res_note :: "string option"
  res_price_unit :: rat
  sale_line_id :: "nat option"
  res_partner_id :: "nat option"
  restrict_partner_id :: "nat option"
  group_id :: "nat option"

text \<open>
  A table is the list of the ids it holds, in the order the host enumerates them, and the
  record of each id. The rules are only searched, never changed: a list of records.
\<close>

record env =
  orders :: "nat \<rightharpoonup> sale_order"
  line_ids :: "nat list"
  lines :: "nat \<rightharpoonup> sale_order_line"
  res_ids :: "nat list"
  reservations :: "nat \<rightharpoonup> stock_reservation"
  group_ids :: "nat list"
  groups :: "nat \<rightharpoonup> procurement_group"
  rules :: "procurement_rule list"

text \<open>
  The One2many fields \<^verbatim>\<open>sale.order.order_line\<close> and
  \<^verbatim>\<open>sale.order.line.reservation_ids\<close> are the inverse of \<open>order_id\<close> and of
  \<open>sale_line_id\<close>: reading one searches the other table.
\<close>

definition order_line :: "env \<Rightarrow> nat \<Rightarrow> nat list" where
  "order_line s o_id =
     filter (\<lambda>i. case lines s i of None \<Rightarrow> False | Some l \<Rightarrow> order_id l = o_id) (line_ids s)"

definition reservation_ids :: "env \<Rightarrow> nat \<Rightarrow> nat list" where
  "reservation_ids s l_id =
     filter (\<lambda>i. case reservations s i of None \<Rightarrow> False | Some r \<Rightarrow> sale_line_id r = Some l_id)
       (res_ids s)"

text \<open>
  The host's recordsets are ordered sets: a union, and so \<^verbatim>\<open>mapped\<close> on a relational
  field, keeps the first occurrence of every id.
\<close>

definition ordered_ids :: "nat list \<Rightarrow> nat list" where
  "ordered_ids ids = rev (remdups (rev ids))"

text \<open>\<^verbatim>\<open>self.mapped('reservation_ids')\<close>: the union of the lines' reservations.\<close>

definition mapped_reservation_ids :: "nat list \<Rightarrow> env \<Rightarrow> nat list" where
  "mapped_reservation_ids self s = ordered_ids (concat (map (reservation_ids s) self))"

subsection \<open>SaleOrderLine.write and its guards\<close>

definition test_block_on_reserve :: "(string \<rightharpoonup> 'v) \<Rightarrow> string set" where
  "test_block_on_reserve vals = dom vals \<inter> {''product_id'', ''product_uom_id'', ''type''}"

definition test_update_on_reserve :: "(string \<rightharpoonup> 'v) \<Rightarrow> string set" where
  "test_update_on_reserve vals = dom vals \<inter> {''price_unit'', ''product_uom_qty''}"

definition block_msg :: string where
  "block_msg = ''You cannot change the product or unit of measure of lines with a stock reservation. Release the reservation before changing the product.''"

definition several_msg :: string where
  "several_msg = ''Several stock reservations are linked with the line. Impossible to adjust their quantity. Please release the reservation before changing the quantity.''"

text \<open>
  The host's write on \<^verbatim>\<open>stock.reservation\<close> for the two plain stored fields the module
  passes: each record of the recordset gets the two values.
\<close>

definition reservation_write1 :: "rat \<Rightarrow> rat \<Rightarrow> nat \<Rightarrow> env \<Rightarrow> env" where
  "reservation_write1 p q i s =
     s\<lparr>reservations := (reservations s)(i :=
          map_option (\<lambda>r. r\<lparr>res_price_unit := p, res_product_uom_qty := q\<rparr>) (reservations s i))\<rparr>"

definition reservation_write :: "nat list \<Rightarrow> rat \<Rightarrow> rat \<Rightarrow> env \<Rightarrow> env" where
  "reservation_write ids p q s = fold (reservation_write1 p q) ids s"

text \<open>
  The loop of \<^verbatim>\<open>_update_reservation_price_qty\<close>. Reading a scalar field of an id that
  has no record is the host's MissingError.
\<close>

fun update_reservation_price_qty :: "nat list \<Rightarrow> env \<Rightarrow> env \<times> (error + unit)" where
  "update_reservation_price_qty [] s = (s, Inr ())"
| "update_reservation_price_qty (l # ls) s =
     (if reservation_ids s l = [] then update_reservation_price_qty ls s
      else if length (reservation_ids s l) > 1 then (s, Inl (UserError several_msg))
      else (case lines s l of
              None \<Rightarrow> (s, Inl MissingError)
            | Some lr \<Rightarrow>
                update_reservation_price_qty ls
                  (reservation_write (reservation_ids s l) (price_unit lr) (product_uom_qty lr) s)))"

text \<open>
  \<^verbatim>\<open>SaleOrderLine.write\<close>, named \<open>line_write\<close> here. The host's own write, \<^verbatim>\<open>super(SaleOrderLine, self).write(vals)\<close>, is the
  parameter \<open>super_write\<close>: it returns the environment it leaves and either the message of
  the error it raises or its result.
\<close>

definition line_write ::
  "((string \<rightharpoonup> 'v) \<Rightarrow> nat list \<Rightarrow> env \<Rightarrow> env \<times> (string + bool)) \<Rightarrow>
     (string \<rightharpoonup> 'v) \<Rightarrow> nat list \<Rightarrow> env \<Rightarrow> env \<times> (error + bool)" where
  "line_write super_write vals self s =
     (if test_block_on_reserve vals \<noteq> {} \<and> length (mapped_reservation_ids self s) > 0
      then (s, Inl (UserError block_msg))
      else (case super_write vals self s of
              (s1, Inl e) \<Rightarrow> (s1, Inl (HostError e))
            | (s1, Inr res) \<Rightarrow>
                if test_update_on_reserve vals \<noteq> {}
                then (case update_reservation_price_qty self s1 of
                        (s2, Inl e) \<Rightarrow> (s2, Inl e)
                      | (s2, Inr u) \<Rightarrow> (s2, Inr res))
                else (s1, Inr res)))"

text \<open>
  A host write to use where a concrete one is needed: the plain assignment of the two
  float fields, when \<open>vals\<close> has them, to every line of the recordset.
\<close>

definition plain_write1 :: "(string \<rightharpoonup> rat) \<Rightarrow> nat \<Rightarrow> env \<Rightarrow> env" where
  "plain_write1 vals i s =
     s\<lparr>lines := (lines s)(i :=
          map_option
            (\<lambda>l. l\<lparr>price_unit := (case vals ''price_unit'' of None \<Rightarrow> price_unit l | Some p \<Rightarrow> p),
                   product_uom_qty :=
                     (case vals ''product_uom_qty'' of None \<Rightarrow> product_uom_qty l | Some q \<Rightarrow> q)\<rparr>)
            (lines s i))\<rparr>"

definition plain_write :: "(string \<rightharpoonup> rat) \<Rightarrow> nat list \<Rightarrow> env \<Rightarrow> env \<times> (string + bool)" where
  "plain_write vals self s = (fold (plain_write1 vals) self s, Inr True)"

subsection \<open>SaleOrder: the computed flags, confirm and cancel\<close>

text \<open>
  The loop of \<^verbatim>\<open>_compute_stock_reservation\<close> over \<^verbatim>\<open>sale.order_line\<close>, with its two
  flags as the accumulator \<open>(has_stock_reservation, is_stock_reservable)\<close>.
\<close>

definition scan_order_line :: "env \<Rightarrow> nat list \<Rightarrow> bool \<times> bool" where
  "scan_order_line s ls =
     fold (\<lambda>l (has, reservable).
             (if reservation_ids s l \<noteq> [] then True else has,
              if (case lines s l of None \<Rightarrow> False | Some lr \<Rightarrow> is_stock_reservable lr)
              then True else reservable))
       ls (False, False)"

fun compute_stock_reservation :: "nat list \<Rightarrow> env \<Rightarrow> env \<times> (error + unit)" where
  "compute_stock_reservation [] s = (s, Inr ())"
| "compute_stock_reservation (sale # sales) s =
     (case orders s sale of
        None \<Rightarrow> (s, Inl MissingError)
      | Some so \<Rightarrow>
          (case scan_order_line s (order_line s sale) of
             (has, reservable) \<Rightarrow>
               compute_stock_reservation sales
                 (s\<lparr>orders := (orders s)(sale \<mapsto>
                      so\<lparr>so_is_stock_reservable :=
                            (if so_state so \<notin> {''draft'', ''sent''} then False else reservable),
                          has_stock_reservation := has\<rparr>)\<rparr>)))"

text \<open>What one pass of that loop body leaves in the order \<open>so\<close> of id \<open>sale\<close>.\<close>

definition order_flags :: "env \<Rightarrow> nat \<Rightarrow> sale_order \<Rightarrow> sale_order" where
  "order_flags s sale so =
     so\<lparr>so_is_stock_reservable :=
          (if so_state so \<notin> {''draft'', ''sent''} then False
           else snd (scan_order_line s (order_line s sale))),
        has_stock_reservation := fst (scan_order_line s (order_line s sale))\<rparr>"


text \<open>
  \<^verbatim>\<open>release\<close> and \<^verbatim>\<open>reserve\<close> of \<^verbatim>\<open>stock.reservation\<close>, and the host's
  \<^verbatim>\<open>_action_confirm\<close> and \<^verbatim>\<open>action_cancel\<close>, are not defined in this file of the
  module: each is a parameter that takes a recordset and the environment and returns the
  environment it leaves with the message of its error or its result.
\<close>

definition release_stock_reservation ::
  "(nat list \<Rightarrow> env \<Rightarrow> env \<times> (string + bool)) \<Rightarrow> nat list \<Rightarrow> env \<Rightarrow> env \<times> (error + bool)" where
  "release_stock_reservation release self s =
     (case release (mapped_reservation_ids self s) s of
        (s1, Inl e) \<Rightarrow> (s1, Inl (HostError e))
      | (s1, Inr u) \<Rightarrow> (s1, Inr True))"





subsection \<open>SaleOrderLine: the rule lookup and the computed flag\<close>

text \<open>
  The host's \<^verbatim>\<open>search(domain, order='route_sequence, sequence', limit=1)\<close> on the rules:
  the records that satisfy the domain, sorted by the two keys (the order of the table
  among equal keys), cut to one.
\<close>

definition search_rules :: "(procurement_rule \<Rightarrow> bool) \<Rightarrow> env \<Rightarrow> procurement_rule list" where
  "search_rules domain s =
     take 1 (sort_key (\<lambda>r. (route_sequence r, sequence r)) (filter domain (rules s)))"

text \<open>The leaf \<^verbatim>\<open>('route_id', 'in', ids)\<close>: a rule without route is in no list.\<close>

definition route_in :: "nat list \<Rightarrow> procurement_rule \<Rightarrow> bool" where
  "route_in ids r = (case route_id r of None \<Rightarrow> False | Some i \<Rightarrow> i \<in> set ids)"

definition product_route_ids :: "sale_order_line \<Rightarrow> nat list" where
  "product_route_ids lr =
     (case product_id lr of None \<Rightarrow> [] | Some p \<Rightarrow> route_ids p @ categ_total_route_ids p)"

text \<open>
  The second domain, \<^verbatim>\<open>['|', ('warehouse_id', '=', warehouse.id),
  ('warehouse_id', '=', False), ('route_id', 'in', wh_route_ids)]\<close>: in the host's
  prefix notation the \<^verbatim>\<open>'|'\<close> joins the two leaves that follow it, and the third leaf is
  joined to them by the implicit and. An order without warehouse has \<^verbatim>\<open>warehouse.id\<close>
  unset and no routes.
\<close>

definition warehouse_domain :: "sale_order \<Rightarrow> procurement_rule \<Rightarrow> bool" where
  "warehouse_domain so r =
     ((rule_warehouse_id r = map_option wh_id (warehouse_id so) \<or> rule_warehouse_id r = None) \<and>
      route_in (case warehouse_id so of None \<Rightarrow> [] | Some w \<Rightarrow> wh_route_ids w) r)"

definition get_line_rule :: "env \<Rightarrow> nat \<Rightarrow> error + procurement_rule option" where
  "get_line_rule s l =
     (case lines s l of
        None \<Rightarrow> Inl MissingError
      | Some lr \<Rightarrow>
          (case search_rules (route_in (product_route_ids lr)) s of
             r # rs \<Rightarrow> Inr (Some r)
           | [] \<Rightarrow>
               (case orders s (order_id lr) of
                  None \<Rightarrow> Inl MissingError
                | Some so \<Rightarrow>
                    (case search_rules (warehouse_domain so) s of
                       r # rs \<Rightarrow> Inr (Some r)
                     | [] \<Rightarrow> Inr None))))"

definition get_procure_method :: "env \<Rightarrow> nat \<Rightarrow> error + string option" where
  "get_procure_method s l =
     (case get_line_rule s l of
        Inl e \<Rightarrow> Inl e
      | Inr None \<Rightarrow> Inr None
      | Inr (Some rule) \<Rightarrow> Inr (Some (procure_method rule)))"

text \<open>
  The condition of \<^verbatim>\<open>_compute_is_stock_reservation\<close>, in Python's evaluation order: a
  line that is not in state draft never reaches the rule lookup.
\<close>

definition reservable_value :: "env \<Rightarrow> nat \<Rightarrow> sale_order_line \<Rightarrow> error + bool" where
  "reservable_value s l lr =
     (if state lr \<noteq> ''draft'' then Inr False
      else (case get_procure_method s l of
              Inl e \<Rightarrow> Inl e
            | Inr m \<Rightarrow>
                Inr (\<not> (m = Some ''make_to_order'' \<or> product_id lr = None \<or>
                         (case product_id lr of None \<Rightarrow> False
                          | Some p \<Rightarrow> product_type p = ''service'')) \<and>
                     reservation_ids s l = [])))"

fun compute_is_stock_reservation :: "nat list \<Rightarrow> env \<Rightarrow> env \<times> (error + unit)" where
  "compute_is_stock_reservation [] s = (s, Inr ())"
| "compute_is_stock_reservation (l # ls) s =
     (case lines s l of
        None \<Rightarrow> (s, Inl MissingError)
      | Some lr \<Rightarrow>
          (case reservable_value s l lr of
             Inl e \<Rightarrow> (s, Inl e)
           | Inr reservable \<Rightarrow>
               compute_is_stock_reservation ls
                 (s\<lparr>lines := (lines s)(l \<mapsto> lr\<lparr>is_stock_reservable := reservable\<rparr>)\<rparr>)))"

subsection \<open>SaleOrderLine: acquiring reservations\<close>

text \<open>The host's create gives the new record an id that the table does not hold yet.\<close>

definition fresh_id :: "nat list \<Rightarrow> nat" where
  "fresh_id ids = Suc (fold max ids 0)"

definition reservation_create :: "stock_reservation \<Rightarrow> env \<Rightarrow> env \<times> nat" where
  "reservation_create vals s =
     (let r = fresh_id (res_ids s)
      in (s\<lparr>res_ids := res_ids s @ [r], reservations := (reservations s)(r \<mapsto> vals)\<rparr>, r))"

definition group_create :: "procurement_group \<Rightarrow> env \<Rightarrow> env \<times> nat" where
  "group_create vals s =
     (let g = fresh_id (group_ids s)
      in (s\<lparr>group_ids := group_ids s @ [g], groups := (groups s)(g \<mapsto> vals)\<rparr>, g))"

text \<open>
  \<^verbatim>\<open>_prepare_stock_reservation\<close> for the one line \<open>l\<close>: it creates the procurement group
  of the order when the order has none, and returns the values of the reservation.
\<close>

definition prepare_stock_reservation ::
  "string option \<Rightarrow> string option \<Rightarrow> nat \<Rightarrow> env \<Rightarrow> env \<times> (error + stock_reservation)" where
  "prepare_stock_reservation date_val nt l s =
     (case lines s l of
        None \<Rightarrow> (s, Inl MissingError)
      | Some lr \<Rightarrow>
          (case orders s (order_id lr) of
             None \<Rightarrow> (s, Inl MissingError)
           | Some so \<Rightarrow>
               (let owner_id = (case stock_owner_id lr of None \<Rightarrow> None | Some ow \<Rightarrow> ow);
                    s1 = (if procurement_group_id so = None
                          then (case group_create
                                       \<lparr>pg_name = so_name so, move_type = picking_policy so,
                                        sale_id = order_id lr,
                                        pg_partner_id = partner_shipping_id so\<rparr> s of
                                  (sg, g) \<Rightarrow>
                                    sg\<lparr>orders := (orders sg)(order_id lr \<mapsto>
                                         so\<lparr>procurement_group_id := Some g\<rparr>)\<rparr>)
                          else s)
                in (s1, Inr \<lparr>res_product_id = map_option product_ref (product_id lr),
                             res_product_uom = product_uom lr,
                             res_product_uom_qty = product_uom_qty lr,
                             date_validity = date_val,
                             res_name = so_name so @ '' ('' @ name lr @ '')'',
                             res_note = nt,
                             res_price_unit = price_unit lr,
                             sale_line_id = Some l,
                             res_partner_id = partner_shipping_id so,
                             restrict_partner_id = owner_id,
                             group_id = (case orders s1 (order_id lr) of
                                           None \<Rightarrow> None
                                         | Some so1 \<Rightarrow> procurement_group_id so1)\<rparr>))))"

text \<open>\<^verbatim>\<open>reservations |= created\<close>: the union of two recordsets keeps the first's order.\<close>

definition recordset_union :: "nat list \<Rightarrow> nat list \<Rightarrow> nat list" where
  "recordset_union xs ys = xs @ filter (\<lambda>y. y \<notin> set xs) (ordered_ids ys)"

text \<open>
  The host recomputes a stored computed field when a field that its \<^verbatim>\<open>@api.depends\<close>
  names has changed. Creating a reservation changes \<^verbatim>\<open>reservation_ids\<close> of its line, which
  \<^verbatim>\<open>_compute_is_stock_reservation\<close> (sale.py 118) and, through the line,
  \<^verbatim>\<open>_compute_stock_reservation\<close> (sale.py 32-34) depend on: the host's create runs the
  compute of the line and then the compute of its order.
\<close>

definition recompute_on_create :: "nat \<Rightarrow> env \<Rightarrow> env \<times> (error + unit)" where
  "recompute_on_create l s =
     (case compute_is_stock_reservation [l] s of
        (s1, Inl e) \<Rightarrow> (s1, Inl e)
      | (s1, Inr u) \<Rightarrow>
          (case lines s1 l of
             None \<Rightarrow> (s1, Inl MissingError)
           | Some lr \<Rightarrow> compute_stock_reservation [order_id lr] s1))"

text \<open>
  The loop of \<^verbatim>\<open>acquire_stock_reservation\<close>, with the recordset \<^verbatim>\<open>reservations\<close> as
  the accumulator \<open>acc\<close>. \<^verbatim>\<open>reserv_obj.create(vals)\<close> is the insertion of the record
  followed by the host's recompute.
\<close>

fun acquire_loop ::
  "string option \<Rightarrow> string option \<Rightarrow> nat list \<Rightarrow> nat list \<Rightarrow> env \<Rightarrow> env \<times> (error + nat list)" where
  "acquire_loop date_val nt [] acc s = (s, Inr acc)"
| "acquire_loop date_val nt (l # ls) acc s =
     (case lines s l of
        None \<Rightarrow> (s, Inl MissingError)
      | Some lr \<Rightarrow>
          if \<not> is_stock_reservable lr then acquire_loop date_val nt ls acc s
          else (case prepare_stock_reservation date_val nt l s of
                  (s1, Inl e) \<Rightarrow> (s1, Inl e)
                | (s1, Inr vals) \<Rightarrow>
                    (case reservation_create vals s1 of
                       (s2, r) \<Rightarrow>
                         (case recompute_on_create l s2 of
                            (s3, Inl e) \<Rightarrow> (s3, Inl e)
                          | (s3, Inr u) \<Rightarrow>
                              acquire_loop date_val nt ls (recordset_union acc [r]) s3))))"

definition acquire_stock_reservation ::
  "(nat list \<Rightarrow> env \<Rightarrow> env \<times> (string + bool)) \<Rightarrow> string option \<Rightarrow> string option \<Rightarrow>
     nat list \<Rightarrow> env \<Rightarrow> env \<times> (error + bool)" where
  "acquire_stock_reservation reserve date_val nt self s =
     (case acquire_loop date_val nt self [] s of
        (s1, Inl e) \<Rightarrow> (s1, Inl e)
      | (s1, Inr created) \<Rightarrow>
          (case reserve created s1 of
             (s2, Inl e) \<Rightarrow> (s2, Inl (HostError e))
           | (s2, Inr u) \<Rightarrow> (s2, Inr True)))"

subsection \<open>Example records\<close>

definition ex_line :: sale_order_line where
  "ex_line = \<lparr>order_id = 5, name = ''line'', state = ''draft'', product_id = None,
     product_uom = Some 1, product_uom_qty = 2, price_unit = 10, stock_owner_id = None,
     is_stock_reservable = False\<rparr>"

definition ex_res :: "nat \<Rightarrow> stock_reservation" where
  "ex_res l = \<lparr>res_product_id = None, res_product_uom = Some 1, res_product_uom_qty = 2,
     date_validity = None, res_name = ''r'', res_note = None, res_price_unit = 10,
     sale_line_id = Some l, res_partner_id = None, restrict_partner_id = None,
     group_id = None\<rparr>"

definition ex_order :: sale_order where
  "ex_order = \<lparr>so_name = ''SO005'', so_state = ''draft'', warehouse_id = None,
     procurement_group_id = None, picking_policy = ''direct'', partner_shipping_id = Some 7,
     has_stock_reservation = False, so_is_stock_reservable = False\<rparr>"

definition ex_env :: env where
  "ex_env = \<lparr>orders = [5 \<mapsto> ex_order], line_ids = [11, 12, 13],
     lines = [11 \<mapsto> ex_line, 12 \<mapsto> ex_line, 13 \<mapsto> ex_line\<lparr>is_stock_reservable := True\<rparr>],
     res_ids = [21, 22, 23],
     reservations = [21 \<mapsto> ex_res 11, 22 \<mapsto> ex_res 12, 23 \<mapsto> ex_res 12],
     group_ids = [], groups = Map.empty, rules = []\<rparr>"

definition ex_product :: product where
  "ex_product = \<lparr>product_ref = 40, product_type = ''product'', route_ids = [61],
     categ_total_route_ids = [62]\<rparr>"

definition ex_rule :: "nat \<Rightarrow> int \<Rightarrow> int \<Rightarrow> string \<Rightarrow> procurement_rule" where
  "ex_rule route rseq sq method = \<lparr>route_id = Some route, route_sequence = rseq, sequence = sq,
     rule_warehouse_id = None, procure_method = method\<rparr>"

definition ex_env_rules :: env where
  "ex_env_rules = \<lparr>orders = [5 \<mapsto> ex_order\<lparr>warehouse_id := Some \<lparr>wh_id = 3, wh_route_ids = [69]\<rparr>\<rparr>],
     line_ids = [14, 15, 16],
     lines = [14 \<mapsto> ex_line\<lparr>product_id := Some ex_product\<rparr>, 15 \<mapsto> ex_line,
              16 \<mapsto> ex_line\<lparr>product_id := Some (ex_product\<lparr>route_ids := [], categ_total_route_ids := []\<rparr>)\<rparr>],
     res_ids = [24], reservations = [24 \<mapsto> ex_res 15],
     group_ids = [], groups = Map.empty,
     rules = [ex_rule 61 2 1 ''make_to_order'', ex_rule 62 1 5 ''make_to_stock'',
              ex_rule 69 0 0 ''make_to_stock'', ex_rule 62 1 7 ''make_to_order'']\<rparr>"

text \<open>The test of the loop of \<^verbatim>\<open>acquire_stock_reservation\<close> on the stored flag of a line.\<close>

abbreviation reservable_line :: "env \<Rightarrow> nat \<Rightarrow> bool" where
  "reservable_line s l \<equiv> (case lines s l of None \<Rightarrow> False | Some lr \<Rightarrow> is_stock_reservable lr)"

text \<open>
  Shorthands for the statements about \<^verbatim>\<open>acquire_stock_reservation\<close>: an order without
  the three fields that the method or the host's recompute writes, the values that
  \<^verbatim>\<open>_prepare_stock_reservation\<close> gives the procurement group of an order, and what a run
  may have done to the groups between two environments (groups are only added, an order
  keeps the group it has, and an order without group either stays so or has got a new
  group with those values).
\<close>

abbreviation order_facts :: "sale_order \<Rightarrow> sale_order" where
  "order_facts so \<equiv>
     so\<lparr>procurement_group_id := None, has_stock_reservation := False,
        so_is_stock_reservable := False\<rparr>"

abbreviation group_of_order :: "nat \<Rightarrow> sale_order \<Rightarrow> procurement_group" where
  "group_of_order x so \<equiv>
     \<lparr>pg_name = so_name so, move_type = picking_policy so, sale_id = x,
      pg_partner_id = partner_shipping_id so\<rparr>"

abbreviation groups_step :: "env \<Rightarrow> env \<Rightarrow> bool" where
  "groups_step s s' \<equiv>
     (\<exists>ng. group_ids s' = group_ids s @ ng) \<and>
     (\<forall>g\<in>set (group_ids s). groups s' g = groups s g) \<and>
     (\<forall>x. map_option order_facts (orders s' x) = map_option order_facts (orders s x)) \<and>
     (\<forall>x so. orders s x = Some so \<longrightarrow>
        (\<exists>so1. orders s' x = Some so1 \<and>
           (case procurement_group_id so of
              Some g \<Rightarrow> procurement_group_id so1 = Some g
            | None \<Rightarrow>
                procurement_group_id so1 = None \<or>
                (\<exists>g. procurement_group_id so1 = Some g \<and> g \<notin> set (group_ids s) \<and>
                   g \<in> set (group_ids s') \<and> groups s' g = Some (group_of_order x so)))))"

subsection \<open>Facts about the guards\<close>

lemma mapped_reservation_ids_empty:
  "(mapped_reservation_ids self s = []) = (\<forall>l\<in>set self. reservation_ids s l = [])"
  by (induction self) (auto simp: mapped_reservation_ids_def ordered_ids_def)

lemma block_msg_neq_several: "block_msg \<noteq> several_msg"
  by (simp add: block_msg_def several_msg_def)

lemma update_reservation_price_qty_not_block:
  "snd (update_reservation_price_qty self s) \<noteq> Inl (UserError block_msg)"
  by (induction self s rule: update_reservation_price_qty.induct)
     (auto simp: block_msg_neq_several [symmetric] split: option.splits)

lemma ex_reservation_ids:
  "reservation_ids ex_env 11 = [21]" "reservation_ids ex_env 12 = [22, 23]"
  "reservation_ids ex_env 13 = []"
  by (simp_all add: reservation_ids_def ex_env_def ex_res_def)

lemma ex_lines: "lines ex_env 11 = Some ex_line" "lines ex_env 12 = Some ex_line"
  by (simp_all add: ex_env_def)

subsection \<open>The update of the reservations\<close>

lemma reservation_write_eq:
  "reservation_write ids p q s =
     s\<lparr>reservations := (\<lambda>i. if i \<in> set ids
          then map_option (\<lambda>r. r\<lparr>res_price_unit := p, res_product_uom_qty := q\<rparr>) (reservations s i)
          else reservations s i)\<rparr>"
proof (induction ids arbitrary: s)
  case Nil
  then show ?case by (simp add: reservation_write_def)
next
  case (Cons a ids)
  have "reservation_write (a # ids) p q s = reservation_write ids p q (reservation_write1 p q a s)"
    by (simp add: reservation_write_def)
  then show ?case
    by (simp add: Cons.IH) (auto simp: reservation_write1_def fun_eq_iff option.map_comp o_def)
qed

lemma reservation_ids_reservation_write:
  "reservation_ids (reservation_write ids p q s) l = reservation_ids s l"
  unfolding reservation_ids_def reservation_write_eq
  by (rule filter_cong) (auto split: option.splits)

lemma reservation_write_fields:
  "lines (reservation_write ids p q s) = lines s"
  "res_ids (reservation_write ids p q s) = res_ids s"
  "line_ids (reservation_write ids p q s) = line_ids s"
  "orders (reservation_write ids p q s) = orders s"
  by (simp_all add: reservation_write_eq)

lemma update_reservation_price_qty_frame:
  "update_reservation_price_qty self s = (s', out) \<Longrightarrow>
     lines s' = lines s \<and> res_ids s' = res_ids s \<and> line_ids s' = line_ids s \<and>
     orders s' = orders s \<and> (\<forall>l. reservation_ids s' l = reservation_ids s l)"
proof (induction self s rule: update_reservation_price_qty.induct)
  case (1 s)
  then show ?case by simp
next
  case (2 l ls s)
  then show ?case
    by (auto simp: reservation_ids_reservation_write reservation_write_fields
             split: if_splits option.splits)
qed

lemma update_reservation_price_qty_untouched:
  "update_reservation_price_qty self s = (s', out) \<Longrightarrow>
     \<forall>l\<in>set self. reservation_ids s l \<noteq> [i] \<Longrightarrow> reservations s' i = reservations s i"
proof (induction self s rule: update_reservation_price_qty.induct)
  case (1 s)
  then show ?case by simp
next
  case (2 l ls s)
  show ?case
  proof (cases "reservation_ids s l = []")
    case True
    with 2 show ?thesis by simp
  next
    case ne: False
    show ?thesis
    proof (cases "length (reservation_ids s l) > 1")
      case True
      with ne 2 show ?thesis by simp
    next
      case False
      with ne obtain r where r: "reservation_ids s l = [r]"
        by (cases "reservation_ids s l") auto
      with 2(4) have ri: "r \<noteq> i" by auto
      show ?thesis
      proof (cases "lines s l")
        case None
        with r 2 show ?thesis by simp
      next
        case (Some lr)
        let ?s1 = "reservation_write [r] (price_unit lr) (product_uom_qty lr) s"
        have "update_reservation_price_qty ls ?s1 = (s', out)"
          using 2(3) r Some by simp
        moreover have "\<forall>l\<in>set ls. reservation_ids ?s1 l \<noteq> [i]"
          using 2(4) by (simp add: reservation_ids_reservation_write)
        ultimately have "reservations s' i = reservations ?s1 i"
          using 2(2) ne False Some r by simp
        then show ?thesis using ri by (simp add: reservation_write_eq)
      qed
    qed
  qed
qed


lemma reservation_ids_mem:
  "r \<in> set (reservation_ids s l) \<Longrightarrow> \<exists>rv. reservations s r = Some rv \<and> sale_line_id rv = Some l"
  by (auto simp: reservation_ids_def split: option.splits)

lemma update_reservation_price_qty_sets:
  "update_reservation_price_qty self s = (s', Inr u) \<Longrightarrow> l \<in> set self \<Longrightarrow>
     reservation_ids s l = [r] \<Longrightarrow>
     \<exists>lr rv. lines s l = Some lr \<and> reservations s' r = Some rv \<and>
       res_price_unit rv = price_unit lr \<and> res_product_uom_qty rv = product_uom_qty lr"
proof (induction self arbitrary: s)
  case Nil
  then show ?case by simp
next
  case (Cons a ls)
  show ?case
  proof (cases "reservation_ids s a = []")
    case True
    with Cons.prems have "update_reservation_price_qty ls s = (s', Inr u)" "l \<in> set ls"
      by auto
    then show ?thesis using Cons.IH Cons.prems(3) by blast
  next
    case ne: False
    from ne Cons.prems(1) have short: "\<not> length (reservation_ids s a) > 1"
      by (auto split: if_splits)
    with ne obtain ra where ra: "reservation_ids s a = [ra]"
      by (cases "reservation_ids s a") auto
    from ra Cons.prems(1) obtain la where la: "lines s a = Some la"
      by (cases "lines s a") auto
    let ?s1 = "reservation_write [ra] (price_unit la) (product_uom_qty la) s"
    have rest: "update_reservation_price_qty ls ?s1 = (s', Inr u)"
      using Cons.prems(1) ra la by simp
    show ?thesis
    proof (cases "l \<in> set ls")
      case True
      have "reservation_ids ?s1 l = [r]"
        using Cons.prems(3) by (simp add: reservation_ids_reservation_write)
      from Cons.IH [OF rest True this] show ?thesis
        by (simp add: reservation_write_fields)
    next
      case False
      with Cons.prems(2) have eq: "l = a" by simp
      with ra Cons.prems(3) have rr: "ra = r" by simp
      have "r \<in> set (reservation_ids s a)" using ra rr by simp
      then obtain rv where rv: "reservations s r = Some rv" "sale_line_id rv = Some a"
        using reservation_ids_mem by blast
      have "\<forall>l'\<in>set ls. reservation_ids ?s1 l' \<noteq> [r]"
      proof
        fix l' assume l': "l' \<in> set ls"
        show "reservation_ids ?s1 l' \<noteq> [r]"
        proof
          assume "reservation_ids ?s1 l' = [r]"
          then have "r \<in> set (reservation_ids s l')"
            by (simp add: reservation_ids_reservation_write)
          then have "sale_line_id rv = Some l'"
            using reservation_ids_mem [of r s l'] rv(1) by auto
          with rv(2) have "l' = a" by simp
          with l' False eq show False by simp
        qed
      qed
      from update_reservation_price_qty_untouched [OF rest this]
      have "reservations s' r = reservations ?s1 r" .
      then show ?thesis using rv la eq rr by (simp add: reservation_write_eq)
    qed
  qed
qed

lemma update_reservation_price_qty_returns:
  "\<forall>l\<in>set self. length (reservation_ids s l) \<le> 1 \<and>
       (reservation_ids s l \<noteq> [] \<longrightarrow> lines s l \<noteq> None) \<Longrightarrow>
     snd (update_reservation_price_qty self s) = Inr ()"
  by (induction self s rule: update_reservation_price_qty.induct)
     (auto simp: reservation_ids_reservation_write reservation_write_fields)

lemma update_reservation_price_qty_raises:
  "\<exists>l\<in>set self. length (reservation_ids s l) > 1 \<Longrightarrow>
     \<forall>l\<in>set self. reservation_ids s l \<noteq> [] \<longrightarrow> lines s l \<noteq> None \<Longrightarrow>
     snd (update_reservation_price_qty self s) = Inl (UserError several_msg)"
proof (induction self s rule: update_reservation_price_qty.induct)
  case (1 s)
  then show ?case by simp
next
  case (2 l ls s)
  show ?case
  proof (cases "length (reservation_ids s l) > 1")
    case True
    then show ?thesis by auto
  next
    case False
    with 2(3) have later: "\<exists>l\<in>set ls. length (reservation_ids s l) > 1" by auto
    show ?thesis
    proof (cases "reservation_ids s l = []")
      case True
      with 2(1) [OF True later] 2(4) show ?thesis by simp
    next
      case ne: False
      with 2(4) obtain lr where lr: "lines s l = Some lr" by auto
      let ?s1 = "reservation_write (reservation_ids s l) (price_unit lr) (product_uom_qty lr) s"
      have "snd (update_reservation_price_qty ls ?s1) = Inl (UserError several_msg)"
        using 2(2) [OF ne False lr] later 2(4)
        by (simp add: reservation_ids_reservation_write reservation_write_fields)
      with ne False lr show ?thesis by simp
    qed
  qed
qed



lemmas ex_defs = line_write_def test_block_on_reserve_def test_update_on_reserve_def
  mapped_reservation_ids_def ordered_ids_def reservation_ids_def plain_write_def plain_write1_def
  reservation_write_def reservation_write1_def ex_env_def ex_line_def ex_res_def


subsection \<open>The blocking guard of write\<close>

text \<open>
  C1. When \<open>vals\<close> has one of the keys \<^verbatim>\<open>product_id\<close>, \<^verbatim>\<open>product_uom_id\<close>,
  \<^verbatim>\<open>type\<close>: if a line of the recordset has a reservation, the write raises the
  blocking UserError whatever the host's write is, and the environment is the one it was
  given; if no line has one, the blocking error is not raised and the outcome is the one
  of the host's write on the given environment, followed by the update of the
  reservations when \<open>vals\<close> asks for it.
\<close>

theorem write_block_on_reserve:
  assumes "''product_id'' \<in> dom vals \<or> ''product_uom_id'' \<in> dom vals \<or> ''type'' \<in> dom vals"
  shows "((\<exists>l\<in>set self. reservation_ids s l \<noteq> []) \<longrightarrow>
            line_write super_write vals self s = (s, Inl (UserError block_msg))) \<and>
         ((\<forall>l\<in>set self. reservation_ids s l = []) \<longrightarrow>
            snd (line_write super_write vals self s) \<noteq> Inl (UserError block_msg) \<and>
            line_write super_write vals self s =
              (case super_write vals self s of
                 (s1, Inl e) \<Rightarrow> (s1, Inl (HostError e))
               | (s1, Inr res) \<Rightarrow>
                   if test_update_on_reserve vals \<noteq> {}
                   then (case update_reservation_price_qty self s1 of
                           (s2, Inl e) \<Rightarrow> (s2, Inl e)
                         | (s2, Inr u) \<Rightarrow> (s2, Inr res))
                   else (s1, Inr res)))"
proof -
  from assms have blk: "test_block_on_reserve vals \<noteq> {}"
    by (auto simp: test_block_on_reserve_def)
  have reserved: "line_write super_write vals self s = (s, Inl (UserError block_msg))"
    if "\<exists>l\<in>set self. reservation_ids s l \<noteq> []"
  proof -
    from that have "mapped_reservation_ids self s \<noteq> []"
      by (simp add: mapped_reservation_ids_empty)
    with blk show ?thesis by (simp add: line_write_def)
  qed
  have free: "mapped_reservation_ids self s = []"
    if "\<forall>l\<in>set self. reservation_ids s l = []"
    using that by (simp add: mapped_reservation_ids_empty)
  have no_block: "snd (line_write super_write vals self s) \<noteq> Inl (UserError block_msg)"
    if "\<forall>l\<in>set self. reservation_ids s l = []"
    using free [OF that] update_reservation_price_qty_not_block [of self "fst (super_write vals self s)"]
    by (auto simp: line_write_def split: prod.splits sum.splits)
  show ?thesis
    using reserved no_block free by (simp add: line_write_def)
qed

theorem write_block_on_reserve_witness:
  "line_write plain_write [''product_id'' \<mapsto> 7] [13, 11] ex_env = (ex_env, Inl (UserError block_msg)) \<and>
   line_write plain_write [''product_id'' \<mapsto> 7] [13] ex_env = (ex_env, Inr True)"
proof -
  have k: "''product_id'' \<in> dom [''product_id'' \<mapsto> (7::rat)] \<or>
           ''product_uom_id'' \<in> dom [''product_id'' \<mapsto> (7::rat)] \<or>
           ''type'' \<in> dom [''product_id'' \<mapsto> (7::rat)]"
    by simp
  have upd: "test_update_on_reserve [''product_id'' \<mapsto> (7::rat)] = {}"
    by (simp add: test_update_on_reserve_def)
  have pw: "plain_write [''product_id'' \<mapsto> 7] [13] ex_env = (ex_env, Inr True)"
    by (simp add: plain_write_def plain_write1_def ex_env_def ex_line_def fun_eq_iff)
  have a: "line_write plain_write [''product_id'' \<mapsto> 7] [13, 11] ex_env = (ex_env, Inl (UserError block_msg))"
    using write_block_on_reserve [OF k, of "[13, 11]" ex_env plain_write]
    by (simp add: ex_reservation_ids)
  have b: "line_write plain_write [''product_id'' \<mapsto> 7] [13] ex_env = (ex_env, Inr True)"
    using write_block_on_reserve [OF k, of "[13]" ex_env plain_write]
    by (simp add: ex_reservation_ids upd pw)
  show ?thesis using a b by simp
qed

subsection \<open>The cascade of write to the reservations\<close>

text \<open>
  C2. When \<open>vals\<close> has \<^verbatim>\<open>price_unit\<close> or \<^verbatim>\<open>product_uom_qty\<close>: once the write has
  returned, every line of the recordset with exactly one reservation has that reservation
  at the line's unit price and quantity, and a reservation that is not the single
  reservation of a line of the recordset is as the host's write left it (lines without
  reservation are skipped). The write does return when the blocking guard does not fire,
  the host's write returns, and then every line of the recordset has at most one
  reservation and a record.
\<close>

theorem write_updates_reservation:
  assumes "''price_unit'' \<in> dom vals \<or> ''product_uom_qty'' \<in> dom vals"
  shows "(\<forall>s1 res.
            (test_block_on_reserve vals = {} \<or> (\<forall>l\<in>set self. reservation_ids s l = [])) \<and>
            super_write vals self s = (s1, Inr res) \<and>
            (\<forall>l\<in>set self. length (reservation_ids s1 l) \<le> 1 \<and>
               (reservation_ids s1 l \<noteq> [] \<longrightarrow> lines s1 l \<noteq> None)) \<longrightarrow>
            (\<exists>s'. line_write super_write vals self s = (s', Inr res))) \<and>
         (\<forall>s' res. line_write super_write vals self s = (s', Inr res) \<longrightarrow>
            (\<forall>l\<in>set self. \<forall>r. reservation_ids s' l = [r] \<longrightarrow>
               (\<exists>lr rv. lines s' l = Some lr \<and> reservations s' r = Some rv \<and>
                  res_price_unit rv = price_unit lr \<and>
                  res_product_uom_qty rv = product_uom_qty lr)) \<and>
            (\<forall>i. (\<forall>l\<in>set self. reservation_ids s' l \<noteq> [i]) \<longrightarrow>
               reservations s' i = reservations (fst (super_write vals self s)) i))"
proof -
  from assms have upd: "test_update_on_reserve vals \<noteq> {}"
    by (auto simp: test_update_on_reserve_def)
  have returns: "\<exists>s'. line_write super_write vals self s = (s', Inr res)"
    if nb: "test_block_on_reserve vals = {} \<or> (\<forall>l\<in>set self. reservation_ids s l = [])"
      and host: "super_write vals self s = (s1, Inr res)"
      and small: "\<forall>l\<in>set self. length (reservation_ids s1 l) \<le> 1 \<and>
               (reservation_ids s1 l \<noteq> [] \<longrightarrow> lines s1 l \<noteq> None)"
    for s1 res
  proof -
    from nb have g: "\<not> (test_block_on_reserve vals \<noteq> {} \<and> length (mapped_reservation_ids self s) > 0)"
      by (auto simp: mapped_reservation_ids_empty)
    from update_reservation_price_qty_returns [OF small]
    obtain s2 where "update_reservation_price_qty self s1 = (s2, Inr ())"
      by (cases "update_reservation_price_qty self s1") auto
    with g host upd show ?thesis by (simp add: line_write_def)
  qed
  have after: "(\<forall>l\<in>set self. \<forall>r. reservation_ids s' l = [r] \<longrightarrow>
               (\<exists>lr rv. lines s' l = Some lr \<and> reservations s' r = Some rv \<and>
                  res_price_unit rv = price_unit lr \<and>
                  res_product_uom_qty rv = product_uom_qty lr)) \<and>
            (\<forall>i. (\<forall>l\<in>set self. reservation_ids s' l \<noteq> [i]) \<longrightarrow>
               reservations s' i = reservations (fst (super_write vals self s)) i)"
    if fin: "line_write super_write vals self s = (s', Inr res)" for s' res
  proof -
    obtain s1 where host: "super_write vals self s = (s1, Inr res)"
      and loop: "update_reservation_price_qty self s1 = (s', Inr ())"
      using fin upd
      by (auto simp: line_write_def split: if_splits prod.splits sum.splits)
    note fr = update_reservation_price_qty_frame [OF loop]
    have a: "\<exists>lr rv. lines s' l = Some lr \<and> reservations s' r = Some rv \<and>
                  res_price_unit rv = price_unit lr \<and>
                  res_product_uom_qty rv = product_uom_qty lr"
      if "l \<in> set self" "reservation_ids s' l = [r]" for l r
      using update_reservation_price_qty_sets [OF loop that(1), of r] that(2) fr by simp
    have b: "reservations s' i = reservations (fst (super_write vals self s)) i"
      if "\<forall>l\<in>set self. reservation_ids s' l \<noteq> [i]" for i
      using update_reservation_price_qty_untouched [OF loop, of i] that fr host by simp
    show ?thesis using a b by blast
  qed
  show ?thesis using returns after by blast
qed


theorem write_updates_reservation_witness:
  "(\<exists>s'. line_write plain_write [''price_unit'' \<mapsto> 99] [11, 13] ex_env = (s', Inr True)) \<and>
   (\<exists>lr rv. lines (fst (line_write plain_write [''price_unit'' \<mapsto> 99] [11, 13] ex_env)) 11 = Some lr \<and>
      reservations (fst (line_write plain_write [''price_unit'' \<mapsto> 99] [11, 13] ex_env)) 21 = Some rv \<and>
      res_price_unit rv = price_unit lr \<and> res_product_uom_qty rv = product_uom_qty lr) \<and>
   reservations (fst (line_write plain_write [''price_unit'' \<mapsto> 99] [11, 13] ex_env)) 22 =
     reservations (fst (plain_write [''price_unit'' \<mapsto> 99] [11, 13] ex_env)) 22"
proof -
  let ?V = "[''price_unit'' \<mapsto> (99::rat)]"
  let ?W = "line_write plain_write ?V [11, 13] ex_env"
  let ?H = "plain_write ?V [11, 13] ex_env"
  have k: "''price_unit'' \<in> dom ?V \<or> ''product_uom_qty'' \<in> dom ?V" by simp
  note main = write_updates_reservation [OF k, of "[11, 13]" ex_env plain_write]
  have nb: "test_block_on_reserve ?V = {}" by (simp add: test_block_on_reserve_def)
  have host: "?H = (fst ?H, Inr True)" by (simp add: plain_write_def)
  have small: "\<forall>l\<in>set [11, 13]. length (reservation_ids (fst ?H) l) \<le> 1 \<and>
               (reservation_ids (fst ?H) l \<noteq> [] \<longrightarrow> lines (fst ?H) l \<noteq> None)"
    by (simp add: ex_defs)
  from main nb host small have ret: "\<exists>s'. ?W = (s', Inr True)" by blast
  then have run: "?W = (fst ?W, Inr True)" by auto
  have one: "reservation_ids (fst ?W) 11 = [21]" by (simp add: ex_defs)
  have other: "\<forall>l\<in>set [11, 13]. reservation_ids (fst ?W) l \<noteq> [22]" by (simp add: ex_defs)
  from main run one have a: "\<exists>lr rv. lines (fst ?W) 11 = Some lr \<and>
      reservations (fst ?W) 21 = Some rv \<and>
      res_price_unit rv = price_unit lr \<and> res_product_uom_qty rv = product_uom_qty lr"
    by (meson list.set_intros(1))
  from main run other have b: "reservations (fst ?W) 22 = reservations (fst ?H) 22"
    by blast
  show ?thesis using ret a b by blast
qed


text \<open>
  C3, as the code has it. When \<open>vals\<close> has \<^verbatim>\<open>price_unit\<close> or
  \<^verbatim>\<open>product_uom_qty\<close>, the blocking guard does not fire, the host's write returns, and
  then some line of the recordset has several reservations (the lines with a reservation
  having a record): the write raises the UserError about several reservations. The error
  comes after the host's write: the lines are as the host's write left them, and the only
  reservations the update may have changed by then are single reservations of lines of
  the recordset.
\<close>

theorem write_several_reservations:
  assumes keys: "''price_unit'' \<in> dom vals \<or> ''product_uom_qty'' \<in> dom vals"
    and noblock: "test_block_on_reserve vals = {} \<or> (\<forall>l\<in>set self. reservation_ids s l = [])"
    and host: "super_write vals self s = (s1, Inr res)"
    and several: "\<exists>l\<in>set self. length (reservation_ids s1 l) > 1"
    and exist: "\<forall>l\<in>set self. reservation_ids s1 l \<noteq> [] \<longrightarrow> lines s1 l \<noteq> None"
  shows "\<exists>s2. line_write super_write vals self s = (s2, Inl (UserError several_msg)) \<and>
           lines s2 = lines s1 \<and> res_ids s2 = res_ids s1 \<and>
           (\<forall>i. (\<forall>l\<in>set self. reservation_ids s1 l \<noteq> [i]) \<longrightarrow>
              reservations s2 i = reservations s1 i)"
proof -
  from keys have upd: "test_update_on_reserve vals \<noteq> {}"
    by (auto simp: test_update_on_reserve_def)
  from noblock have g: "\<not> (test_block_on_reserve vals \<noteq> {} \<and> length (mapped_reservation_ids self s) > 0)"
    by (auto simp: mapped_reservation_ids_empty)
  obtain s2 where loop: "update_reservation_price_qty self s1 = (s2, Inl (UserError several_msg))"
    using update_reservation_price_qty_raises [OF several exist]
    by (cases "update_reservation_price_qty self s1") auto
  have w: "line_write super_write vals self s = (s2, Inl (UserError several_msg))"
    using g host upd loop by (auto simp: line_write_def)
  note fr = update_reservation_price_qty_frame [OF loop]
  have "reservations s2 i = reservations s1 i"
    if "\<forall>l\<in>set self. reservation_ids s1 l \<noteq> [i]" for i
    using update_reservation_price_qty_untouched [OF loop that] .
  with w fr show ?thesis by blast
qed


theorem write_several_reservations_witness:
  "\<exists>s2. line_write plain_write [''price_unit'' \<mapsto> 99] [11, 12] ex_env = (s2, Inl (UserError several_msg)) \<and>
     lines s2 = lines (fst (plain_write [''price_unit'' \<mapsto> 99] [11, 12] ex_env)) \<and>
     reservations s2 22 = reservations ex_env 22 \<and> reservations s2 23 = reservations ex_env 23"
proof -
  let ?V = "[''price_unit'' \<mapsto> (99::rat)]"
  let ?H = "plain_write ?V [11, 12] ex_env"
  have k: "''price_unit'' \<in> dom ?V \<or> ''product_uom_qty'' \<in> dom ?V" by simp
  have nb: "test_block_on_reserve ?V = {} \<or> (\<forall>l\<in>set [11, 12]. reservation_ids ex_env l = [])"
    by (simp add: test_block_on_reserve_def)
  have host: "?H = (fst ?H, Inr True)" by (simp add: plain_write_def)
  have several: "\<exists>l\<in>set [11, 12]. length (reservation_ids (fst ?H) l) > 1"
    by (simp add: ex_defs)
  have exist: "\<forall>l\<in>set [11, 12]. reservation_ids (fst ?H) l \<noteq> [] \<longrightarrow> lines (fst ?H) l \<noteq> None"
    by (simp add: ex_defs)
  have u22: "\<forall>l\<in>set [11, 12]. reservation_ids (fst ?H) l \<noteq> [22]" by (simp add: ex_defs)
  have u23: "\<forall>l\<in>set [11, 12]. reservation_ids (fst ?H) l \<noteq> [23]" by (simp add: ex_defs)
  have same: "reservations (fst ?H) = reservations ex_env"
    by (simp add: plain_write_def plain_write1_def)
  from write_several_reservations [of ?V "[11, 12]" ex_env plain_write "fst ?H" True, OF k nb host several exist]
    u22 u23 same
  show ?thesis by auto
qed


text \<open>
  The failed write of C3 does change the environment: with line 11 holding one reservation
  and line 12 two, writing the unit price 99 on both raises the error, and by then line 11
  and its reservation 21 have the new price.
\<close>

theorem write_several_reservations_counterexample:
  "length (reservation_ids ex_env 12) > 1 \<and>
   snd (line_write plain_write [''price_unit'' \<mapsto> 99] [11, 12] ex_env) = Inl (UserError several_msg) \<and>
   map_option price_unit (lines ex_env 11) = Some 10 \<and>
   map_option price_unit
     (lines (fst (line_write plain_write [''price_unit'' \<mapsto> 99] [11, 12] ex_env)) 11) = Some 99 \<and>
   map_option res_price_unit (reservations ex_env 21) = Some 10 \<and>
   map_option res_price_unit
     (reservations (fst (line_write plain_write [''price_unit'' \<mapsto> 99] [11, 12] ex_env)) 21) = Some 99"
  by (simp add: ex_defs)


subsection \<open>The frame of write\<close>

text \<open>
  C10. When \<open>vals\<close> has none of the five keys the guards look at, the write is the
  host's write and nothing more: the outcome and the environment are the host's, no
  UserError of this module is raised, and the reservations that the host's write leaves
  alone are left alone, however many reservations the lines have.
\<close>

theorem write_frame:
  assumes "dom vals \<inter> {''product_id'', ''product_uom_id'', ''type'', ''price_unit'',
             ''product_uom_qty''} = {}"
  shows "line_write super_write vals self s =
           (case super_write vals self s of
              (s1, Inl e) \<Rightarrow> (s1, Inl (HostError e))
            | (s1, Inr res) \<Rightarrow> (s1, Inr res)) \<and>
         (\<forall>msg. snd (line_write super_write vals self s) \<noteq> Inl (UserError msg)) \<and>
         fst (line_write super_write vals self s) = fst (super_write vals self s) \<and>
         (reservations (fst (super_write vals self s)) = reservations s \<longrightarrow>
            reservations (fst (line_write super_write vals self s)) = reservations s)"
proof -
  from assms have "test_block_on_reserve vals = {}" "test_update_on_reserve vals = {}"
    by (auto simp: test_block_on_reserve_def test_update_on_reserve_def)
  then have eq: "line_write super_write vals self s =
           (case super_write vals self s of
              (s1, Inl e) \<Rightarrow> (s1, Inl (HostError e))
            | (s1, Inr res) \<Rightarrow> (s1, Inr res))"
    by (simp add: line_write_def)
  show ?thesis
    unfolding eq by (auto split: prod.splits sum.splits)
qed

theorem write_frame_witness:
  "line_write plain_write [''name'' \<mapsto> 1] [12] ex_env = (ex_env, Inr True)"
proof -
  let ?V = "[''name'' \<mapsto> (1::rat)]"
  have k: "dom ?V \<inter> {''product_id'', ''product_uom_id'', ''type'', ''price_unit'',
             ''product_uom_qty''} = {}"
    by simp
  have host: "plain_write ?V [12] ex_env = (ex_env, Inr True)"
    by (simp add: plain_write_def plain_write1_def ex_env_def ex_line_def fun_eq_iff)
  have "reservations (fst (plain_write ?V [12] ex_env)) = reservations ex_env"
    by (simp add: host)
  with write_frame [OF k, of plain_write "[12]" ex_env] host show ?thesis
    by simp
qed

subsection \<open>The computed flags of the order\<close>

lemma scan_fold:
  "fold (\<lambda>l (has, reservable).
             (if reservation_ids s l \<noteq> [] then True else has,
              if (case lines s l of None \<Rightarrow> False | Some lr \<Rightarrow> is_stock_reservable lr)
              then True else reservable))
       ls (a, b) =
   (a \<or> (\<exists>l\<in>set ls. reservation_ids s l \<noteq> []),
    b \<or> (\<exists>l\<in>set ls. case lines s l of None \<Rightarrow> False | Some lr \<Rightarrow> is_stock_reservable lr))"
  by (induction ls arbitrary: a b) auto

lemma scan_order_line_eq:
  "scan_order_line s ls =
     ((\<exists>l\<in>set ls. reservation_ids s l \<noteq> []),
      (\<exists>l\<in>set ls. case lines s l of None \<Rightarrow> False | Some lr \<Rightarrow> is_stock_reservable lr))"
  by (simp add: scan_order_line_def scan_fold)

lemma scan_order_line_cong:
  "lines s' = lines s \<Longrightarrow> res_ids s' = res_ids s \<Longrightarrow> reservations s' = reservations s \<Longrightarrow>
     scan_order_line s' ls = scan_order_line s ls"
  by (simp add: scan_order_line_eq reservation_ids_def)

lemma order_line_cong:
  "lines s' = lines s \<Longrightarrow> line_ids s' = line_ids s \<Longrightarrow> order_line s' sale = order_line s sale"
  by (simp add: order_line_def)

lemma compute_stock_reservation_step:
  "orders s sale = Some so \<Longrightarrow>
     compute_stock_reservation (sale # sales) s =
       compute_stock_reservation sales (s\<lparr>orders := (orders s)(sale \<mapsto> order_flags s sale so)\<rparr>)"
  by (simp add: order_flags_def split: prod.splits)


lemma order_flags_state: "so_state (order_flags s sale so) = so_state so"
  by (simp add: order_flags_def)

lemma order_flags_cong:
  "lines s' = lines s \<Longrightarrow> line_ids s' = line_ids s \<Longrightarrow> res_ids s' = res_ids s \<Longrightarrow>
     reservations s' = reservations s \<Longrightarrow> order_flags s' sale so = order_flags s sale so"
proof -
  assume a: "lines s' = lines s" "line_ids s' = line_ids s" "res_ids s' = res_ids s"
    "reservations s' = reservations s"
  have "order_line s' sale = order_line s sale"
    using a(1,2) by (rule order_line_cong)
  moreover have "scan_order_line s' (order_line s sale) = scan_order_line s (order_line s sale)"
    using a(1,3,4) by (rule scan_order_line_cong)
  ultimately show ?thesis by (simp add: order_flags_def)
qed

lemma order_flags_idem:
  "order_flags s sale (order_flags s sale so) = order_flags s sale so"
  by (simp add: order_flags_def)

lemma compute_stock_reservation_frame:
  "compute_stock_reservation self s = (s', out) \<Longrightarrow>
     lines s' = lines s \<and> line_ids s' = line_ids s \<and> res_ids s' = res_ids s \<and>
     reservations s' = reservations s \<and>
     (\<forall>sale. sale \<notin> set self \<longrightarrow> orders s' sale = orders s sale)"
proof (induction self arbitrary: s)
  case Nil
  then show ?case by simp
next
  case (Cons a sales)
  show ?case
  proof (cases "orders s a")
    case None
    with Cons.prems show ?thesis by simp
  next
    case (Some so)
    let ?s1 = "s\<lparr>orders := (orders s)(a \<mapsto> order_flags s a so)\<rparr>"
    have rest: "compute_stock_reservation sales ?s1 = (s', out)"
      using Cons.prems compute_stock_reservation_step [OF Some] by simp
    from Cons.IH [OF rest] show ?thesis by simp
  qed
qed

lemma compute_stock_reservation_sets:
  "compute_stock_reservation self s = (s', Inr u) \<Longrightarrow> sale \<in> set self \<Longrightarrow>
     orders s sale \<noteq> None \<and>
     orders s' sale = map_option (order_flags s sale) (orders s sale)"
proof (induction self arbitrary: s)
  case Nil
  then show ?case by simp
next
  case (Cons a sales)
  from Cons.prems(1) obtain so where Some: "orders s a = Some so"
    by (cases "orders s a") auto
  define s1 where "s1 = s\<lparr>orders := (orders s)(a \<mapsto> order_flags s a so)\<rparr>"
  have rest: "compute_stock_reservation sales s1 = (s', Inr u)"
    using Cons.prems(1) compute_stock_reservation_step [OF Some] by (simp add: s1_def)
  have same: "order_flags s1 x y = order_flags s x y" for x y
    by (rule order_flags_cong) (simp_all add: s1_def)
  have o1: "orders s1 x = (if x = a then Some (order_flags s a so) else orders s x)" for x
    by (simp add: s1_def)
  show ?case
  proof (cases "sale \<in> set sales")
    case True
    from Cons.IH [OF rest True]
    have h: "orders s1 sale \<noteq> None"
      "orders s' sale = map_option (order_flags s1 sale) (orders s1 sale)"
      by simp_all
    show ?thesis
    proof (cases "sale = a")
      case True
      have "orders s' a = Some (order_flags s a (order_flags s a so))"
        using h(2) unfolding True o1 same by simp
      then show ?thesis using Some True by (simp add: order_flags_idem)
    next
      case False
      have "orders s' sale = map_option (order_flags s sale) (orders s sale)"
        using h(2) False unfolding o1 same by simp
      moreover have "orders s sale \<noteq> None" using h(1) False unfolding o1 by simp
      ultimately show ?thesis by simp
    qed
  next
    case False
    with Cons.prems(2) have eq: "sale = a" by simp
    from compute_stock_reservation_frame [OF rest] False
    have "orders s' sale = orders s1 sale" by simp
    then show ?thesis using eq Some by (simp add: o1)
  qed
qed

lemma compute_stock_reservation_returns:
  "\<forall>sale\<in>set self. orders s sale \<noteq> None \<Longrightarrow> snd (compute_stock_reservation self s) = Inr ()"
proof (induction self arbitrary: s)
  case Nil
  then show ?case by simp
next
  case (Cons a sales)
  from Cons.prems obtain so where Some: "orders s a = Some so" by auto
  define s1 where "s1 = s\<lparr>orders := (orders s)(a \<mapsto> order_flags s a so)\<rparr>"
  have "\<forall>sale\<in>set sales. orders s1 sale \<noteq> None" using Cons.prems by (simp add: s1_def)
  from Cons.IH [OF this] have "snd (compute_stock_reservation sales s1) = Inr ()" .
  moreover have "compute_stock_reservation (a # sales) s = compute_stock_reservation sales s1"
    unfolding s1_def by (rule compute_stock_reservation_step [OF Some])
  ultimately show ?case by (simp only:)
qed


lemma reservation_ids_cong:
  "res_ids s' = res_ids s \<Longrightarrow> reservations s' = reservations s \<Longrightarrow>
     reservation_ids s' l = reservation_ids s l"
  by (simp add: reservation_ids_def)

text \<open>
  C4. For the orders of the recordset (each with a record), the compute returns, and it
  leaves \<open>has_stock_reservation\<close> true exactly when one of the order's lines has a
  reservation, and \<open>is_stock_reservable\<close> true exactly when one of the order's lines is
  reservable and the state of the order is draft or sent.
\<close>

theorem compute_stock_reservation_flags:
  assumes "\<forall>sale\<in>set self. orders s sale \<noteq> None"
  shows "\<exists>s'. compute_stock_reservation self s = (s', Inr ()) \<and>
           (\<forall>sale\<in>set self. \<exists>so'. orders s' sale = Some so' \<and>
              (has_stock_reservation so' \<longleftrightarrow>
                 (\<exists>l\<in>set (order_line s' sale). reservation_ids s' l \<noteq> [])) \<and>
              (so_is_stock_reservable so' \<longleftrightarrow>
                 (\<exists>l\<in>set (order_line s' sale). \<exists>lr. lines s' l = Some lr \<and> is_stock_reservable lr) \<and>
                 (so_state so' = ''draft'' \<or> so_state so' = ''sent'')))"
proof -
  obtain s' where run: "compute_stock_reservation self s = (s', Inr ())"
    using compute_stock_reservation_returns [OF assms]
    by (cases "compute_stock_reservation self s") auto
  note fr = compute_stock_reservation_frame [OF run]
  have ol: "order_line s' sale = order_line s sale" for sale
    using fr by (intro order_line_cong) simp_all
  have ri: "reservation_ids s' l = reservation_ids s l" for l
    using fr by (intro reservation_ids_cong) simp_all
  have ln: "lines s' = lines s" using fr by simp
  have flags: "\<exists>so'. orders s' sale = Some so' \<and>
              (has_stock_reservation so' \<longleftrightarrow>
                 (\<exists>l\<in>set (order_line s' sale). reservation_ids s' l \<noteq> [])) \<and>
              (so_is_stock_reservable so' \<longleftrightarrow>
                 (\<exists>l\<in>set (order_line s' sale). \<exists>lr. lines s' l = Some lr \<and> is_stock_reservable lr) \<and>
                 (so_state so' = ''draft'' \<or> so_state so' = ''sent''))"
    if "sale \<in> set self" for sale
  proof -
    from compute_stock_reservation_sets [OF run that]
    obtain so where so: "orders s sale = Some so"
      "orders s' sale = Some (order_flags s sale so)"
      by auto
    have a: "has_stock_reservation (order_flags s sale so) \<longleftrightarrow>
               (\<exists>l\<in>set (order_line s sale). reservation_ids s l \<noteq> [])"
      by (simp add: order_flags_def scan_order_line_eq)
    have b: "so_is_stock_reservable (order_flags s sale so) \<longleftrightarrow>
               (\<exists>l\<in>set (order_line s sale). \<exists>lr. lines s l = Some lr \<and> is_stock_reservable lr) \<and>
               (so_state (order_flags s sale so) = ''draft'' \<or>
                so_state (order_flags s sale so) = ''sent'')"
      by (auto simp: order_flags_def scan_order_line_eq split: option.splits)
    show ?thesis
      unfolding ol ri ln so(2) using a b by blast
  qed
  show ?thesis using run flags by blast
qed

theorem compute_stock_reservation_flags_witness:
  "\<exists>s'. compute_stock_reservation [5] ex_env = (s', Inr ()) \<and>
     map_option has_stock_reservation (orders s' 5) = Some True \<and>
     map_option so_is_stock_reservable (orders s' 5) = Some True"
proof -
  let ?R = "compute_stock_reservation [5] ex_env"
  have h: "\<forall>sale\<in>set [5]. orders ex_env sale \<noteq> None" by (simp add: ex_env_def)
  from compute_stock_reservation_flags [OF h]
  obtain s' where r1: "?R = (s', Inr ())"
    and every: "\<forall>sale\<in>set [5]. \<exists>so'. orders s' sale = Some so' \<and>
              (has_stock_reservation so' \<longleftrightarrow>
                 (\<exists>l\<in>set (order_line s' sale). reservation_ids s' l \<noteq> [])) \<and>
              (so_is_stock_reservable so' \<longleftrightarrow>
                 (\<exists>l\<in>set (order_line s' sale). \<exists>lr. lines s' l = Some lr \<and> is_stock_reservable lr) \<and>
                 (so_state so' = ''draft'' \<or> so_state so' = ''sent''))"
    by blast
  from every have "\<exists>so'. orders s' 5 = Some so' \<and>
              (has_stock_reservation so' \<longleftrightarrow>
                 (\<exists>l\<in>set (order_line s' 5). reservation_ids s' l \<noteq> [])) \<and>
              (so_is_stock_reservable so' \<longleftrightarrow>
                 (\<exists>l\<in>set (order_line s' 5). \<exists>lr. lines s' l = Some lr \<and> is_stock_reservable lr) \<and>
                 (so_state so' = ''draft'' \<or> so_state so' = ''sent''))"
    by (rule bspec) simp
  then obtain so' where r: "orders s' 5 = Some so'"
    "has_stock_reservation so' \<longleftrightarrow> (\<exists>l\<in>set (order_line s' 5). reservation_ids s' l \<noteq> [])"
    "so_is_stock_reservable so' \<longleftrightarrow>
       (\<exists>l\<in>set (order_line s' 5). \<exists>lr. lines s' l = Some lr \<and> is_stock_reservable lr) \<and>
       (so_state so' = ''draft'' \<or> so_state so' = ''sent'')"
    by blast
  have lines_s': "lines s' = lines ex_env" "line_ids s' = line_ids ex_env"
    "res_ids s' = res_ids ex_env" "reservations s' = reservations ex_env"
    using compute_stock_reservation_frame [OF r1] by simp_all
  have ol: "order_line s' 5 = [11, 12, 13]"
    by (simp add: order_line_def lines_s' ex_env_def ex_line_def)
  have r11: "reservation_ids s' 11 = [21]"
    by (simp add: reservation_ids_def lines_s' ex_env_def ex_res_def)
  have l13: "\<exists>lr. lines s' 13 = Some lr \<and> is_stock_reservable lr"
    by (simp add: lines_s' ex_env_def)
  have "orders s' 5 = map_option (order_flags ex_env 5) (orders ex_env 5)"
    using compute_stock_reservation_sets [OF r1, of 5] by simp
  with r(1) have st: "so_state so' = ''draft''"
    by (auto simp: ex_env_def ex_order_def order_flags_state)
  have "has_stock_reservation so'" using r(2) ol r11 by simp
  moreover have "so_is_stock_reservable so'" using r(3) ol l13 st by simp
  ultimately show ?thesis using r1 r(1) by simp
qed

subsection \<open>The rule lookup\<close>

lemma search_rules_Nil:
  "(search_rules d s = []) = (\<forall>r\<in>set (rules s). \<not> d r)"
proof -
  let ?xs = "sort_key (\<lambda>r. (route_sequence r, sequence r)) (filter d (rules s))"
  have "(search_rules d s = []) = (?xs = [])"
    by (cases ?xs) (simp_all add: search_rules_def)
  also have "\<dots> = (set ?xs = {})" by (simp only: set_empty)
  also have "\<dots> = (\<forall>r\<in>set (rules s). \<not> d r)" by (simp only: set_sort) auto
  finally show ?thesis .
qed

lemma search_rules_Cons:
  assumes "search_rules d s = r # rs"
  shows "rs = [] \<and> r \<in> set (rules s) \<and> d r \<and>
         (\<forall>r'\<in>set (rules s). d r' \<longrightarrow>
            route_sequence r < route_sequence r' \<or>
            (route_sequence r = route_sequence r' \<and> sequence r \<le> sequence r'))"
proof -
  let ?f = "\<lambda>r. (route_sequence r, sequence r)"
  let ?xs = "sort_key ?f (filter d (rules s))"
  from assms obtain ys where xs: "?xs = r # ys" and rs: "rs = []"
    by (cases ?xs) (auto simp: search_rules_def)
  have "set ?xs = set (filter d (rules s))" by simp
  with xs have mem: "set (filter d (rules s)) = insert r (set ys)" by simp
  have "sorted (map ?f ?xs)" by (rule sorted_sort_key)
  with xs have le: "\<forall>y\<in>set ys. ?f r \<le> ?f y" by simp
  have "?f r \<le> ?f r'" if "r' \<in> set (rules s)" "d r'" for r'
  proof -
    from that have "r' \<in> set (filter d (rules s))" by simp
    with mem have "r' = r \<or> r' \<in> set ys" by simp
    with le show ?thesis by auto
  qed
  then have "\<forall>r'\<in>set (rules s). d r' \<longrightarrow>
            route_sequence r < route_sequence r' \<or>
            (route_sequence r = route_sequence r' \<and> sequence r \<le> sequence r')"
  proof (intro ballI impI)
    fix r' assume "r' \<in> set (rules s)" "d r'"
    then have "?f r \<le> ?f r'" by (rule \<open>\<And>r'. r' \<in> set (rules s) \<Longrightarrow> d r' \<Longrightarrow> ?f r \<le> ?f r'\<close>)
    then show "route_sequence r < route_sequence r' \<or>
            (route_sequence r = route_sequence r' \<and> sequence r \<le> sequence r')"
      by (simp only: less_eq_prod_simp) linarith
  qed
  moreover from mem have "r \<in> set (rules s)" "d r" by auto
  ultimately show ?thesis using rs by simp
qed


lemma search_rules_length: "length (search_rules d s) \<le> 1"
  by (simp add: search_rules_def)

text \<open>
  C5. For a line with a record whose order has a record, the lookup returns: the rule it
  gives is a rule of the first domain (the route among the product's routes and its
  category's total routes), least in \<open>(route_sequence, sequence)\<close> among them, whenever
  some rule satisfies that domain; only otherwise a rule of the second domain (the
  order's warehouse or none, and the route among the warehouse's routes), least among
  those; and nothing exactly when no rule satisfies either domain. Each search gives at
  most one rule.
\<close>

theorem get_line_rule_two_tier:
  assumes "lines s l = Some lr" and "orders s (order_id lr) = Some so"
  shows "(case get_line_rule s l of
            Inl e \<Rightarrow> False
          | Inr None \<Rightarrow>
              (\<forall>r\<in>set (rules s). \<not> route_in (product_route_ids lr) r \<and> \<not> warehouse_domain so r)
          | Inr (Some r) \<Rightarrow>
              r \<in> set (rules s) \<and>
              (if \<exists>r'\<in>set (rules s). route_in (product_route_ids lr) r'
               then route_in (product_route_ids lr) r \<and>
                    (\<forall>r'\<in>set (rules s). route_in (product_route_ids lr) r' \<longrightarrow>
                       route_sequence r < route_sequence r' \<or>
                       (route_sequence r = route_sequence r' \<and> sequence r \<le> sequence r'))
               else warehouse_domain so r \<and>
                    (\<forall>r'\<in>set (rules s). warehouse_domain so r' \<longrightarrow>
                       route_sequence r < route_sequence r' \<or>
                       (route_sequence r = route_sequence r' \<and> sequence r \<le> sequence r')))) \<and>
         length (search_rules (route_in (product_route_ids lr)) s) \<le> 1 \<and>
         length (search_rules (warehouse_domain so) s) \<le> 1"
proof (cases "search_rules (route_in (product_route_ids lr)) s")
  case (Cons r rs)
  then have ex: "\<exists>r'\<in>set (rules s). route_in (product_route_ids lr) r'"
    using search_rules_Nil [of "route_in (product_route_ids lr)" s] by simp
  have res: "get_line_rule s l = Inr (Some r)"
    using assms Cons by (simp add: get_line_rule_def)
  show ?thesis
    unfolding res using search_rules_Cons [OF Cons] ex
    by (simp add: search_rules_length [simplified])
next
  case first: Nil
  then have nex: "\<not> (\<exists>r'\<in>set (rules s). route_in (product_route_ids lr) r')"
    using search_rules_Nil [of "route_in (product_route_ids lr)" s] by simp
  show ?thesis
  proof (cases "search_rules (warehouse_domain so) s")
    case Nil
    then have none: "\<forall>r\<in>set (rules s). \<not> warehouse_domain so r"
      using search_rules_Nil [of "warehouse_domain so" s] by simp
    have res: "get_line_rule s l = Inr None"
      using assms first Nil by (simp add: get_line_rule_def)
    show ?thesis
      unfolding res using nex none by (simp add: search_rules_length [simplified])
  next
    case (Cons r rs)
    have res: "get_line_rule s l = Inr (Some r)"
      using assms first Cons by (simp add: get_line_rule_def)
    show ?thesis
      unfolding res using search_rules_Cons [OF Cons] nex
      by (simp add: search_rules_length [simplified])
  qed
qed



lemmas ex_rule_defs = get_line_rule_def search_rules_def route_in_def product_route_ids_def
  warehouse_domain_def ex_env_rules_def ex_product_def ex_rule_def ex_line_def ex_order_def

theorem get_line_rule_two_tier_witness:
  "get_line_rule ex_env_rules 14 = Inr (Some (ex_rule 62 1 5 ''make_to_stock'')) \<and>
   get_line_rule ex_env_rules 15 = Inr (Some (ex_rule 69 0 0 ''make_to_stock'')) \<and>
   route_in (product_route_ids (ex_line\<lparr>product_id := Some ex_product\<rparr>))
     (ex_rule 62 1 5 ''make_to_stock'') \<and>
   warehouse_domain (ex_order\<lparr>warehouse_id := Some \<lparr>wh_id = 3, wh_route_ids = [69]\<rparr>\<rparr>)
     (ex_rule 69 0 0 ''make_to_stock'')"
proof -
  let ?so = "ex_order\<lparr>warehouse_id := Some \<lparr>wh_id = 3, wh_route_ids = [69]\<rparr>\<rparr>"
  have l14: "lines ex_env_rules 14 = Some (ex_line\<lparr>product_id := Some ex_product\<rparr>)"
    and l15: "lines ex_env_rules 15 = Some ex_line"
    by (simp_all add: ex_env_rules_def)
  have o14: "orders ex_env_rules (order_id (ex_line\<lparr>product_id := Some ex_product\<rparr>)) = Some ?so"
    and o15: "orders ex_env_rules (order_id ex_line) = Some ?so"
    by (simp_all add: ex_env_rules_def ex_line_def)
  have r14: "get_line_rule ex_env_rules 14 = Inr (Some (ex_rule 62 1 5 ''make_to_stock''))"
    by (simp add: ex_rule_defs)
  have r15: "get_line_rule ex_env_rules 15 = Inr (Some (ex_rule 69 0 0 ''make_to_stock''))"
    by (simp add: ex_rule_defs)
  have some14: "\<exists>r'\<in>set (rules ex_env_rules).
      route_in (product_route_ids (ex_line\<lparr>product_id := Some ex_product\<rparr>)) r'"
    by (simp add: ex_rule_defs)
  have none15: "\<not> (\<exists>r'\<in>set (rules ex_env_rules). route_in (product_route_ids ex_line) r')"
    by (simp add: ex_rule_defs)
  from get_line_rule_two_tier [OF l14 o14] r14 some14
  have a: "route_in (product_route_ids (ex_line\<lparr>product_id := Some ex_product\<rparr>))
     (ex_rule 62 1 5 ''make_to_stock'')"
    by simp
  from get_line_rule_two_tier [OF l15 o15] r15 none15
  have b: "warehouse_domain ?so (ex_rule 69 0 0 ''make_to_stock'')"
    by simp
  show ?thesis using r14 r15 a b by simp
qed

subsection \<open>The computed flag of the line\<close>

lemma get_procure_method_set_flag:
  "lines s a = Some la \<Longrightarrow>
     get_procure_method (s\<lparr>lines := (lines s)(a \<mapsto> la\<lparr>is_stock_reservable := b\<rparr>)\<rparr>) l =
     get_procure_method s l"
proof -
  assume la: "lines s a = Some la"
  let ?s1 = "s\<lparr>lines := (lines s)(a \<mapsto> la\<lparr>is_stock_reservable := b\<rparr>)\<rparr>"
  have sr: "search_rules d ?s1 = search_rules d s" for d
    by (simp add: search_rules_def)
  have pr: "product_route_ids (la\<lparr>is_stock_reservable := b\<rparr>) = product_route_ids la"
    by (simp add: product_route_ids_def)
  have "get_line_rule ?s1 l = get_line_rule s l"
  proof (cases "l = a")
    case True
    then show ?thesis using la
      by (simp add: get_line_rule_def sr pr cong: list.case_cong option.case_cong)
  next
    case False
    then show ?thesis
      by (simp add: get_line_rule_def sr cong: list.case_cong option.case_cong)
  qed
  then show ?thesis by (simp add: get_procure_method_def)
qed

lemma reservation_ids_set_flag:
  "reservation_ids (s\<lparr>lines := f\<rparr>) l = reservation_ids s l"
  by (simp add: reservation_ids_def)

lemma reservable_value_set_flag:
  "lines s a = Some la \<Longrightarrow>
     reservable_value (s\<lparr>lines := (lines s)(a \<mapsto> la\<lparr>is_stock_reservable := b\<rparr>)\<rparr>) l lr =
     reservable_value s l lr"
  by (simp add: reservable_value_def get_procure_method_set_flag reservation_ids_set_flag
        cong: sum.case_cong)

lemma reservable_value_flag:
  "reservable_value s l (lr\<lparr>is_stock_reservable := b\<rparr>) = reservable_value s l lr"
  by (simp add: reservable_value_def cong: sum.case_cong)

lemma compute_is_stock_reservation_step:
  "lines s a = Some la \<Longrightarrow> reservable_value s a la = Inr b \<Longrightarrow>
     compute_is_stock_reservation (a # ls) s =
       compute_is_stock_reservation ls
         (s\<lparr>lines := (lines s)(a \<mapsto> la\<lparr>is_stock_reservable := b\<rparr>)\<rparr>)"
  by simp

lemma compute_is_stock_reservation_Cons_Inr:
  assumes "compute_is_stock_reservation (a # ls) s = (s', Inr u)"
  obtains la b where "lines s a = Some la" "reservable_value s a la = Inr b"
    "compute_is_stock_reservation ls
         (s\<lparr>lines := (lines s)(a \<mapsto> la\<lparr>is_stock_reservable := b\<rparr>)\<rparr>) = (s', Inr u)"
  using assms by (auto split: option.splits sum.splits)

lemma compute_is_stock_reservation_frame:
  "compute_is_stock_reservation self s = (s', out) \<Longrightarrow>
     orders s' = orders s \<and> rules s' = rules s \<and> res_ids s' = res_ids s \<and>
     reservations s' = reservations s \<and> line_ids s' = line_ids s \<and>
     (\<forall>l. l \<notin> set self \<longrightarrow> lines s' l = lines s l)"
proof (induction self arbitrary: s)
  case Nil
  then show ?case by simp
next
  case (Cons a ls)
  show ?case
  proof (cases "lines s a")
    case None
    with Cons.prems show ?thesis by simp
  next
    case (Some la)
    show ?thesis
    proof (cases "reservable_value s a la")
      case (Inl e)
      with Some Cons.prems show ?thesis by simp
    next
      case (Inr b)
      define s1 where "s1 = s\<lparr>lines := (lines s)(a \<mapsto> la\<lparr>is_stock_reservable := b\<rparr>)\<rparr>"
      have "compute_is_stock_reservation ls s1 = (s', out)"
        using Cons.prems compute_is_stock_reservation_step [OF Some Inr] by (simp add: s1_def)
      from Cons.IH [OF this] show ?thesis by (simp add: s1_def)
    qed
  qed
qed


lemma compute_is_stock_reservation_sets:
  "compute_is_stock_reservation self s = (s', Inr u) \<Longrightarrow> l \<in> set self \<Longrightarrow>
     \<exists>lr b. lines s l = Some lr \<and> reservable_value s l lr = Inr b \<and>
       lines s' l = Some (lr\<lparr>is_stock_reservable := b\<rparr>)"
proof (induction self arbitrary: s)
  case Nil
  then show ?case by simp
next
  case (Cons a ls)
  from Cons.prems(1) obtain la b where la: "lines s a = Some la"
    and b: "reservable_value s a la = Inr b"
    and rest0: "compute_is_stock_reservation ls
         (s\<lparr>lines := (lines s)(a \<mapsto> la\<lparr>is_stock_reservable := b\<rparr>)\<rparr>) = (s', Inr u)"
    by (rule compute_is_stock_reservation_Cons_Inr)
  define s1 where "s1 = s\<lparr>lines := (lines s)(a \<mapsto> la\<lparr>is_stock_reservable := b\<rparr>)\<rparr>"
  have rest: "compute_is_stock_reservation ls s1 = (s', Inr u)"
    using rest0 by (simp only: s1_def)
  have rv: "reservable_value s1 x y = reservable_value s x y" for x y
    unfolding s1_def by (rule reservable_value_set_flag [OF la])
  have l1: "lines s1 x = (if x = a then Some (la\<lparr>is_stock_reservable := b\<rparr>) else lines s x)" for x
    by (simp add: s1_def)
  show ?case
  proof (cases "l \<in> set ls")
    case True
    from Cons.IH [OF rest True]
    obtain lr1 b1 where h: "lines s1 l = Some lr1" "reservable_value s1 l lr1 = Inr b1"
      "lines s' l = Some (lr1\<lparr>is_stock_reservable := b1\<rparr>)"
      by blast
    show ?thesis
    proof (cases "l = a")
      case True
      from h(1) True have lr1: "lr1 = la\<lparr>is_stock_reservable := b\<rparr>" by (simp add: l1)
      from h(2) have "reservable_value s a la = Inr b1"
        unfolding rv lr1 True reservable_value_flag .
      with b have "b1 = b" by simp
      with h(3) lr1 have "lines s' l = Some (la\<lparr>is_stock_reservable := b\<rparr>)" by simp
      with la b True show ?thesis by simp
    next
      case False
      from h(1) False have "lines s l = Some lr1" by (simp add: l1)
      moreover from h(2) have "reservable_value s l lr1 = Inr b1" unfolding rv .
      ultimately show ?thesis using h(3) by simp
    qed
  next
    case False
    with Cons.prems(2) have eq: "l = a" by simp
    from compute_is_stock_reservation_frame [OF rest] False
    have "lines s' l = lines s1 l" by simp
    with eq la b show ?thesis by (simp add: l1)
  qed
qed

lemma get_procure_method_cong:
  "lines s' l = Some (lr\<lparr>is_stock_reservable := b\<rparr>) \<Longrightarrow> lines s l = Some lr \<Longrightarrow>
     orders s' = orders s \<Longrightarrow> rules s' = rules s \<Longrightarrow>
     get_procure_method s' l = get_procure_method s l"
  by (simp add: get_procure_method_def get_line_rule_def search_rules_def product_route_ids_def
        cong: list.case_cong option.case_cong)

lemma get_procure_method_returns:
  "lines s l = Some lr \<Longrightarrow> orders s (order_id lr) \<noteq> None \<Longrightarrow>
     \<exists>m. get_procure_method s l = Inr m"
  by (auto simp: get_procure_method_def get_line_rule_def split: list.splits option.splits)

lemma reservable_value_returns:
  "lines s l = Some lr \<Longrightarrow> orders s (order_id lr) \<noteq> None \<Longrightarrow>
     \<exists>b. reservable_value s l lr = Inr b"
  using get_procure_method_returns [of s l lr]
  by (auto simp: reservable_value_def)

lemma compute_is_stock_reservation_returns:
  "\<forall>l\<in>set self. \<exists>lr. lines s l = Some lr \<and> orders s (order_id lr) \<noteq> None \<Longrightarrow>
     snd (compute_is_stock_reservation self s) = Inr ()"
proof (induction self arbitrary: s)
  case Nil
  then show ?case by simp
next
  case (Cons a ls)
  from Cons.prems obtain la where la: "lines s a = Some la" "orders s (order_id la) \<noteq> None"
    by auto
  from reservable_value_returns [OF la] obtain b where b: "reservable_value s a la = Inr b"
    by blast
  define s1 where "s1 = s\<lparr>lines := (lines s)(a \<mapsto> la\<lparr>is_stock_reservable := b\<rparr>)\<rparr>"
  have "\<forall>l\<in>set ls. \<exists>lr. lines s1 l = Some lr \<and> orders s1 (order_id lr) \<noteq> None"
    using Cons.prems la by (auto simp: s1_def)
  from Cons.IH [OF this] have "snd (compute_is_stock_reservation ls s1) = Inr ()" .
  moreover have "compute_is_stock_reservation (a # ls) s = compute_is_stock_reservation ls s1"
    unfolding s1_def by (rule compute_is_stock_reservation_step [OF la(1) b])
  ultimately show ?case by (simp only:)
qed


text \<open>
  C8. After the line-level compute has returned, a line of the recordset that is reservable
  has no reservation, is in state draft, has a product that is not a service, and the
  procure method of its rule, if it has one, is not make_to_order; so no line is left
  both reservable and reserved. The compute does return when every line of the recordset
  and its order have a record.
\<close>

theorem compute_is_stock_reservation_invariant:
  "((\<forall>l\<in>set self. \<exists>lr. lines s l = Some lr \<and> orders s (order_id lr) \<noteq> None) \<longrightarrow>
      (\<exists>s'. compute_is_stock_reservation self s = (s', Inr ()))) \<and>
   (\<forall>s' l lr'. compute_is_stock_reservation self s = (s', Inr ()) \<and> l \<in> set self \<and>
        lines s' l = Some lr' \<and> is_stock_reservable lr' \<longrightarrow>
      reservation_ids s' l = [] \<and> state lr' = ''draft'' \<and>
      (\<exists>p. product_id lr' = Some p \<and> product_type p \<noteq> ''service'') \<and>
      (\<exists>m. get_procure_method s' l = Inr m \<and> m \<noteq> Some ''make_to_order''))"
proof -
  have returns: "\<exists>s'. compute_is_stock_reservation self s = (s', Inr ())"
    if "\<forall>l\<in>set self. \<exists>lr. lines s l = Some lr \<and> orders s (order_id lr) \<noteq> None"
    using compute_is_stock_reservation_returns [OF that]
    by (cases "compute_is_stock_reservation self s") auto
  have inv: "reservation_ids s' l = [] \<and> state lr' = ''draft'' \<and>
      (\<exists>p. product_id lr' = Some p \<and> product_type p \<noteq> ''service'') \<and>
      (\<exists>m. get_procure_method s' l = Inr m \<and> m \<noteq> Some ''make_to_order'')"
    if run: "compute_is_stock_reservation self s = (s', Inr ())" and l: "l \<in> set self"
      and lr': "lines s' l = Some lr'" and fl: "is_stock_reservable lr'"
    for s' l lr'
  proof -
    from compute_is_stock_reservation_sets [OF run l]
    obtain lr b where h: "lines s l = Some lr" "reservable_value s l lr = Inr b"
      "lines s' l = Some (lr\<lparr>is_stock_reservable := b\<rparr>)"
      by blast
    from h(3) lr' have eq: "lr' = lr\<lparr>is_stock_reservable := b\<rparr>" by simp
    with fl have b: "b = True" by simp
    note fr = compute_is_stock_reservation_frame [OF run]
    have ri: "reservation_ids s' l = reservation_ids s l"
      using fr by (intro reservation_ids_cong) simp_all
    have pm: "get_procure_method s' l = get_procure_method s l"
      using h(3) h(1) fr by (intro get_procure_method_cong) simp_all
    from h(2) b have st: "state lr = ''draft''"
      by (auto simp: reservable_value_def split: if_splits)
    with h(2) b obtain m where m: "get_procure_method s l = Inr m"
      "\<not> (m = Some ''make_to_order'' \<or> product_id lr = None \<or>
          (case product_id lr of None \<Rightarrow> False | Some p \<Rightarrow> product_type p = ''service''))"
      "reservation_ids s l = []"
      by (auto simp: reservable_value_def split: sum.splits)
    from m(2) obtain p where p: "product_id lr = Some p" "product_type p \<noteq> ''service''"
      by (cases "product_id lr") auto
    show ?thesis
      unfolding ri pm eq using st m p by simp
  qed
  show ?thesis using returns inv by blast
qed


theorem compute_is_stock_reservation_invariant_witness:
  "\<exists>s' lr'. compute_is_stock_reservation [14, 15] ex_env_rules = (s', Inr ()) \<and>
     lines s' 14 = Some lr' \<and> is_stock_reservable lr' \<and>
     reservation_ids s' 14 = [] \<and> state lr' = ''draft'' \<and>
     (\<exists>m. get_procure_method s' 14 = Inr m \<and> m \<noteq> Some ''make_to_order'')"
proof -
  let ?R = "compute_is_stock_reservation [14, 15] ex_env_rules"
  note main = compute_is_stock_reservation_invariant [of "[14, 15]" ex_env_rules]
  have pre: "\<forall>l\<in>set [14, 15]. \<exists>lr. lines ex_env_rules l = Some lr \<and>
      orders ex_env_rules (order_id lr) \<noteq> None"
    by (simp add: ex_env_rules_def ex_line_def)
  with main obtain s' where run: "?R = (s', Inr ())" by blast
  have pm: "get_procure_method ex_env_rules 14 = Inr (Some ''make_to_stock'')"
    by (simp add: get_procure_method_def ex_rule_defs)
  have rv: "reservable_value ex_env_rules 14 (ex_line\<lparr>product_id := Some ex_product\<rparr>) = Inr True"
    by (simp add: reservable_value_def pm)
       (simp add: ex_line_def ex_product_def reservation_ids_def ex_env_rules_def ex_res_def)
  from compute_is_stock_reservation_sets [OF run, of 14]
  have "lines s' 14 = Some (ex_line\<lparr>product_id := Some ex_product, is_stock_reservable := True\<rparr>)"
    using rv by (auto simp: ex_env_rules_def)
  then obtain lr' where lr': "lines s' 14 = Some lr'" "is_stock_reservable lr'" by simp
  from main run lr' have "reservation_ids s' 14 = [] \<and> state lr' = ''draft'' \<and>
      (\<exists>p. product_id lr' = Some p \<and> product_type p \<noteq> ''service'') \<and>
      (\<exists>m. get_procure_method s' 14 = Inr m \<and> m \<noteq> Some ''make_to_order'')"
    by (meson list.set_intros(1))
  with run lr' show ?thesis by blast
qed

subsection \<open>Releasing the reservations at confirm and cancel\<close>













subsection \<open>Acquiring and releasing reservations\<close>

lemma fold_max_ge: "m \<le> fold max ids (m::nat) \<and> (\<forall>x\<in>set ids. x \<le> fold max ids m)"
proof (induction ids arbitrary: m)
  case Nil
  then show ?case by simp
next
  case (Cons a ids)
  from Cons.IH [of "max a m"] show ?case by auto
qed

lemma fresh_id_notin: "fresh_id ids \<notin> set ids"
proof
  assume "fresh_id ids \<in> set ids"
  with fold_max_ge [of 0 ids] have "fresh_id ids \<le> fold max ids 0" by blast
  then show False by (simp add: fresh_id_def)
qed

lemma prepare_stock_reservation_Inr:
  assumes "lines s a = Some la"
    and "prepare_stock_reservation dv nt a s = (sp, Inr vals)"
  shows "lines sp = lines s \<and> line_ids sp = line_ids s \<and> rules sp = rules s \<and>
         res_ids sp = res_ids s \<and> reservations sp = reservations s \<and>
         sale_line_id vals = Some a \<and>
         res_product_id vals = map_option product_ref (product_id la) \<and>
         res_product_uom vals = product_uom la \<and>
         res_product_uom_qty vals = product_uom_qty la \<and>
         res_price_unit vals = price_unit la \<and>
         group_id vals \<noteq> None \<and>
         (\<exists>so2. orders sp (order_id la) = Some so2 \<and> procurement_group_id so2 = group_id vals) \<and>
         (\<forall>oid so g. orders s oid = Some so \<and> procurement_group_id so = Some g \<longrightarrow>
            (\<exists>so1. orders sp oid = Some so1 \<and> procurement_group_id so1 = Some g))"
proof -
  from assms obtain so where so: "orders s (order_id la) = Some so"
    by (cases "orders s (order_id la)") (auto simp: prepare_stock_reservation_def)
  show ?thesis
  proof (cases "procurement_group_id so")
    case None
    with assms so show ?thesis
      by (auto simp: prepare_stock_reservation_def group_create_def Let_def)
  next
    case (Some g)
    with assms so show ?thesis
      by (auto simp: prepare_stock_reservation_def Let_def)
  qed
qed

lemma prepare_stock_reservation_returns:
  "lines s a = Some la \<Longrightarrow> orders s (order_id la) \<noteq> None \<Longrightarrow>
     \<exists>sp vals. prepare_stock_reservation dv nt a s = (sp, Inr vals)"
  by (auto simp: prepare_stock_reservation_def Let_def)

lemma reservation_create_spec:
  assumes "reservation_create vals sp = (s2, r)"
  shows "r \<notin> set (res_ids sp) \<and> res_ids s2 = res_ids sp @ [r] \<and> lines s2 = lines sp \<and>
         line_ids s2 = line_ids sp \<and> rules s2 = rules sp \<and> orders s2 = orders sp \<and>
         reservations s2 = (reservations sp)(r \<mapsto> vals)"
  using assms fresh_id_notin [of "res_ids sp"]
  by (auto simp: reservation_create_def Let_def)




lemma prepare_stock_reservation_orders:
  "prepare_stock_reservation dv nt a s = (sp, out) \<Longrightarrow> orders s oid \<noteq> None \<Longrightarrow>
     orders sp oid \<noteq> None"
  by (auto simp: prepare_stock_reservation_def group_create_def Let_def
           split: option.splits if_splits)


lemma reservable_value_reserved:
  "reservation_ids s l \<noteq> [] \<Longrightarrow> reservable_value s l lr = Inr b \<Longrightarrow> \<not> b"
  by (auto simp: reservable_value_def split: if_splits sum.splits)


lemma recompute_on_create_Inr:
  assumes la: "lines s2 a = Some la" and has: "reservation_ids s2 a \<noteq> []"
    and rc: "recompute_on_create a s2 = (s3, Inr u)"
  shows "lines s3 = (lines s2)(a \<mapsto> la\<lparr>is_stock_reservable := False\<rparr>) \<and>
         res_ids s3 = res_ids s2 \<and> reservations s3 = reservations s2 \<and>
         line_ids s3 = line_ids s2 \<and> rules s3 = rules s2 \<and>
         group_ids s3 = group_ids s2 \<and> groups s3 = groups s2 \<and>
         (\<forall>x. map_option order_facts (orders s3 x) = map_option order_facts (orders s2 x)) \<and>
         (\<forall>x. map_option procurement_group_id (orders s3 x) =
              map_option procurement_group_id (orders s2 x))"
proof -
  from rc obtain b where b: "reservable_value s2 a la = Inr b"
    using la by (cases "reservable_value s2 a la") (auto simp: recompute_on_create_def)
  from reservable_value_reserved [OF has b] have nb: "b = False" by simp
  define sm where "sm = s2\<lparr>lines := (lines s2)(a \<mapsto> la\<lparr>is_stock_reservable := False\<rparr>)\<rparr>"
  have cm: "compute_is_stock_reservation [a] s2 = (sm, Inr ())"
    using la b nb by (simp add: sm_def)
  have lm: "lines sm a = Some (la\<lparr>is_stock_reservable := False\<rparr>)" by (simp add: sm_def)
  from rc cm lm have co: "compute_stock_reservation [order_id la] sm = (s3, Inr u)"
    by (simp add: recompute_on_create_def)
  then obtain so where so: "orders sm (order_id la) = Some so"
    by (cases "orders sm (order_id la)") auto
  from co compute_stock_reservation_step [OF so, of "[]"]
  have s3: "s3 = sm\<lparr>orders := (orders sm)(order_id la \<mapsto> order_flags sm (order_id la) so)\<rparr>"
    by simp
  have of1: "order_facts (order_flags sm (order_id la) so) = order_facts so"
    by (simp add: order_flags_def)
  have of2: "procurement_group_id (order_flags sm (order_id la) so) = procurement_group_id so"
    by (simp add: order_flags_def)
  show ?thesis
    unfolding s3 using so of1 of2 by (simp add: sm_def)
qed

lemma recompute_on_create_returns:
  assumes la: "lines s2 a = Some la" and o: "orders s2 (order_id la) \<noteq> None"
  shows "\<exists>s3. recompute_on_create a s2 = (s3, Inr ())"
proof -
  from reservable_value_returns [OF la o] obtain b where b: "reservable_value s2 a la = Inr b"
    by blast
  define sm where "sm = s2\<lparr>lines := (lines s2)(a \<mapsto> la\<lparr>is_stock_reservable := b\<rparr>)\<rparr>"
  have cm: "compute_is_stock_reservation [a] s2 = (sm, Inr ())"
    using la b by (simp add: sm_def)
  have lm: "lines sm a = Some (la\<lparr>is_stock_reservable := b\<rparr>)" by (simp add: sm_def)
  from o obtain so where so: "orders sm (order_id la) = Some so" by (auto simp: sm_def)
  have "compute_stock_reservation [order_id la] sm =
      (sm\<lparr>orders := (orders sm)(order_id la \<mapsto> order_flags sm (order_id la) so)\<rparr>, Inr ())"
    using compute_stock_reservation_step [OF so, of "[]"] by simp
  with cm lm show ?thesis by (simp add: recompute_on_create_def)
qed


lemma order_facts_fields:
  "order_facts so1 = order_facts so \<Longrightarrow>
     so_name so1 = so_name so \<and> picking_policy so1 = picking_policy so \<and>
     partner_shipping_id so1 = partner_shipping_id so"
proof -
  assume e: "order_facts so1 = order_facts so"
  from arg_cong [OF e, of so_name] arg_cong [OF e, of picking_policy]
    arg_cong [OF e, of partner_shipping_id]
  show ?thesis by simp
qed

lemma groups_step_same:
  assumes "group_ids s' = group_ids s" "groups s' = groups s"
    and f: "\<forall>x. map_option order_facts (orders s' x) = map_option order_facts (orders s x)"
    and g: "\<forall>x. map_option procurement_group_id (orders s' x) =
              map_option procurement_group_id (orders s x)"
  shows "groups_step s s'"
proof -
  have "\<exists>so1. orders s' x = Some so1 \<and>
           (case procurement_group_id so of
              Some g \<Rightarrow> procurement_group_id so1 = Some g
            | None \<Rightarrow>
                procurement_group_id so1 = None \<or>
                (\<exists>g. procurement_group_id so1 = Some g \<and> g \<notin> set (group_ids s) \<and>
                   g \<in> set (group_ids s') \<and> groups s' g = Some (group_of_order x so)))"
    if so: "orders s x = Some so" for x so
  proof -
    from g so have "map_option procurement_group_id (orders s' x) = Some (procurement_group_id so)"
      by simp
    then obtain so1 where "orders s' x = Some so1" "procurement_group_id so1 = procurement_group_id so"
      by auto
    then show ?thesis by (cases "procurement_group_id so") auto
  qed
  then have p4: "\<forall>x so. orders s x = Some so \<longrightarrow>
        (\<exists>so1. orders s' x = Some so1 \<and>
           (case procurement_group_id so of
              Some g \<Rightarrow> procurement_group_id so1 = Some g
            | None \<Rightarrow>
                procurement_group_id so1 = None \<or>
                (\<exists>g. procurement_group_id so1 = Some g \<and> g \<notin> set (group_ids s) \<and>
                   g \<in> set (group_ids s') \<and> groups s' g = Some (group_of_order x so))))"
    by blast
  have p1: "\<exists>ng. group_ids s' = group_ids s @ ng" using assms(1) by simp
  have p2: "\<forall>g\<in>set (group_ids s). groups s' g = groups s g" using assms(2) by simp
  show ?thesis using p1 p2 f p4 by (intro conjI)
qed

lemma groups_step_refl: "groups_step s s"
  by (rule groups_step_same) simp_all

lemma groups_step_trans:
  assumes a: "groups_step s s'" and b: "groups_step s' s''"
  shows "groups_step s s''"
proof -
  note a1 = a [THEN conjunct1] and a2 = a [THEN conjunct2, THEN conjunct1]
    and a3 = a [THEN conjunct2, THEN conjunct2, THEN conjunct1]
    and a4 = a [THEN conjunct2, THEN conjunct2, THEN conjunct2, rule_format]
  note b1 = b [THEN conjunct1] and b2 = b [THEN conjunct2, THEN conjunct1]
    and b3 = b [THEN conjunct2, THEN conjunct2, THEN conjunct1]
    and b4 = b [THEN conjunct2, THEN conjunct2, THEN conjunct2, rule_format]
  from a1 obtain ng where ng: "group_ids s' = group_ids s @ ng" by blast
  from b1 obtain ng' where ng': "group_ids s'' = group_ids s' @ ng'" by blast
  have p1: "\<exists>n. group_ids s'' = group_ids s @ n" using ng ng' by simp
  have p2: "\<forall>g\<in>set (group_ids s). groups s'' g = groups s g"
    using a2 b2 ng by auto
  have p3: "\<forall>x. map_option order_facts (orders s'' x) = map_option order_facts (orders s x)"
    using a3 b3 by simp
  have p4: "\<exists>so2. orders s'' x = Some so2 \<and>
           (case procurement_group_id so of
              Some g \<Rightarrow> procurement_group_id so2 = Some g
            | None \<Rightarrow>
                procurement_group_id so2 = None \<or>
                (\<exists>g. procurement_group_id so2 = Some g \<and> g \<notin> set (group_ids s) \<and>
                   g \<in> set (group_ids s'') \<and> groups s'' g = Some (group_of_order x so)))"
    if so: "orders s x = Some so" for x so
  proof -
    from a4 [OF so] obtain so1 where so1: "orders s' x = Some so1"
      and c1: "case procurement_group_id so of
              Some g \<Rightarrow> procurement_group_id so1 = Some g
            | None \<Rightarrow>
                procurement_group_id so1 = None \<or>
                (\<exists>g. procurement_group_id so1 = Some g \<and> g \<notin> set (group_ids s) \<and>
                   g \<in> set (group_ids s') \<and> groups s' g = Some (group_of_order x so))"
      by blast
    from b4 [OF so1] obtain so2 where so2: "orders s'' x = Some so2"
      and c2: "case procurement_group_id so1 of
              Some g \<Rightarrow> procurement_group_id so2 = Some g
            | None \<Rightarrow>
                procurement_group_id so2 = None \<or>
                (\<exists>g. procurement_group_id so2 = Some g \<and> g \<notin> set (group_ids s') \<and>
                   g \<in> set (group_ids s'') \<and> groups s'' g = Some (group_of_order x so1))"
      by blast
    from a3 [rule_format, of x] so so1 have "order_facts so1 = order_facts so"
      by simp
    from order_facts_fields [OF this] have gg: "group_of_order x so1 = group_of_order x so"
      by simp
    show ?thesis
    proof (cases "procurement_group_id so")
      case (Some g)
      with c1 c2 so2 show ?thesis by simp
    next
      case None
      show ?thesis
      proof (cases "procurement_group_id so1")
        case n1: None
        with c2 have "procurement_group_id so2 = None \<or>
                (\<exists>g. procurement_group_id so2 = Some g \<and> g \<notin> set (group_ids s') \<and>
                   g \<in> set (group_ids s'') \<and> groups s'' g = Some (group_of_order x so))"
          unfolding gg by simp
        with None so2 ng show ?thesis by auto
      next
        case (Some g)
        with c1 None have g: "g \<notin> set (group_ids s)" "g \<in> set (group_ids s')"
          "groups s' g = Some (group_of_order x so)"
          by auto
        from c2 Some have "procurement_group_id so2 = Some g" by simp
        moreover from b2 g(2) have "groups s'' g = groups s' g" by blast
        moreover from g(2) ng' have "g \<in> set (group_ids s'')" by simp
        ultimately show ?thesis using None so2 g by simp
      qed
    qed
  qed
  from p4 have p4': "\<forall>x so. orders s x = Some so \<longrightarrow>
        (\<exists>so2. orders s'' x = Some so2 \<and>
           (case procurement_group_id so of
              Some g \<Rightarrow> procurement_group_id so2 = Some g
            | None \<Rightarrow>
                procurement_group_id so2 = None \<or>
                (\<exists>g. procurement_group_id so2 = Some g \<and> g \<notin> set (group_ids s) \<and>
                   g \<in> set (group_ids s'') \<and> groups s'' g = Some (group_of_order x so))))"
    by blast
  show ?thesis using p1 p2 p3 p4' by (intro conjI)
qed


lemma prepare_stock_reservation_groups:
  assumes "prepare_stock_reservation dv nt a s = (sp, out)"
  shows "groups_step s sp"
proof (cases "lines s a")
  case None
  with assms have eq: "sp = s" by (simp add: prepare_stock_reservation_def)
  show ?thesis unfolding eq by (rule groups_step_refl)
next
  case (Some la)
  show ?thesis
  proof (cases "orders s (order_id la)")
    case None
    with assms Some have eq: "sp = s" by (simp add: prepare_stock_reservation_def)
    show ?thesis unfolding eq by (rule groups_step_refl)
  next
    case so: (Some so)
    show ?thesis
    proof (cases "procurement_group_id so")
      case (Some g0)
      with assms \<open>lines s a = Some la\<close> so have eq: "sp = s"
        by (simp add: prepare_stock_reservation_def Let_def)
      show ?thesis unfolding eq by (rule groups_step_refl)
    next
      case None
      define g where "g = fresh_id (group_ids s)"
      have gf: "g \<notin> set (group_ids s)" unfolding g_def by (rule fresh_id_notin)
      have sp: "sp = s\<lparr>group_ids := group_ids s @ [g],
                       groups := (groups s)(g \<mapsto> group_of_order (order_id la) so),
                       orders := (orders s)(order_id la \<mapsto> so\<lparr>procurement_group_id := Some g\<rparr>)\<rparr>"
        using assms \<open>lines s a = Some la\<close> so None
        by (simp add: prepare_stock_reservation_def group_create_def Let_def g_def)
      have p1: "\<exists>ng. group_ids sp = group_ids s @ ng" by (simp add: sp)
      have p2: "\<forall>g'\<in>set (group_ids s). groups sp g' = groups s g'"
        using gf by (auto simp: sp)
      have p3: "\<forall>x. map_option order_facts (orders sp x) = map_option order_facts (orders s x)"
        using so by (simp add: sp)
      have p4: "\<forall>x so'. orders s x = Some so' \<longrightarrow>
        (\<exists>so1. orders sp x = Some so1 \<and>
           (case procurement_group_id so' of
              Some g \<Rightarrow> procurement_group_id so1 = Some g
            | None \<Rightarrow>
                procurement_group_id so1 = None \<or>
                (\<exists>g. procurement_group_id so1 = Some g \<and> g \<notin> set (group_ids s) \<and>
                   g \<in> set (group_ids sp) \<and> groups sp g = Some (group_of_order x so'))))"
      proof (intro allI impI)
        fix x so' assume x: "orders s x = Some so'"
        show "\<exists>so1. orders sp x = Some so1 \<and>
           (case procurement_group_id so' of
              Some g \<Rightarrow> procurement_group_id so1 = Some g
            | None \<Rightarrow>
                procurement_group_id so1 = None \<or>
                (\<exists>g. procurement_group_id so1 = Some g \<and> g \<notin> set (group_ids s) \<and>
                   g \<in> set (group_ids sp) \<and> groups sp g = Some (group_of_order x so')))"
        proof (cases "x = order_id la")
          case True
          with x so have "so' = so" by simp
          with True None gf show ?thesis by (simp add: sp)
        next
          case False
          with x show ?thesis by (cases "procurement_group_id so'") (simp_all add: sp)
        qed
      qed
      show ?thesis using p1 p2 p3 p4 by (intro conjI)
    qed
  qed
qed


lemma reservation_create_groups:
  "reservation_create vals sp = (s2, r) \<Longrightarrow> group_ids s2 = group_ids sp \<and> groups s2 = groups sp"
  by (auto simp: reservation_create_def Let_def)

lemma acquire_step:
  assumes la: "lines s a = Some la"
    and prep: "prepare_stock_reservation dv nt a s = (sp, Inr vals)"
    and cr: "reservation_create vals sp = (s2, r)"
    and rc: "recompute_on_create a s2 = (s3, Inr u)"
  shows "r \<notin> set (res_ids s)"
    and "res_ids s3 = res_ids s @ [r]"
    and "reservations s3 = (reservations s)(r \<mapsto> vals)"
    and "line_ids s3 = line_ids s"
    and "rules s3 = rules s"
    and "lines s3 = (lines s)(a \<mapsto> la\<lparr>is_stock_reservable := False\<rparr>)"
    and "groups_step s s3"
    and "sale_line_id vals = Some a \<and>
         res_product_id vals = map_option product_ref (product_id la) \<and>
         res_product_uom vals = product_uom la \<and>
         res_product_uom_qty vals = product_uom_qty la \<and>
         res_price_unit vals = price_unit la \<and>
         group_id vals \<noteq> None \<and>
         (\<exists>so3. orders s3 (order_id la) = Some so3 \<and> procurement_group_id so3 = group_id vals)"
proof -
  note P = prepare_stock_reservation_Inr [OF la prep]
  note C = reservation_create_spec [OF cr]
  note CG = reservation_create_groups [OF cr]
  have la2: "lines s2 a = Some la" using P C la by simp
  have "r \<in> set (reservation_ids s2 a)"
    using P C by (simp add: reservation_ids_def)
  then have has: "reservation_ids s2 a \<noteq> []" by auto
  note R = recompute_on_create_Inr [OF la2 has rc]
  show "r \<notin> set (res_ids s)" using P C by simp
  show "res_ids s3 = res_ids s @ [r]" using P C R by simp
  show "reservations s3 = (reservations s)(r \<mapsto> vals)" using P C R by simp
  show "line_ids s3 = line_ids s" using P C R by simp
  show "rules s3 = rules s" using P C R by simp
  show "lines s3 = (lines s)(a \<mapsto> la\<lparr>is_stock_reservable := False\<rparr>)" using P C R by simp
  have g1: "groups_step s sp" using prep by (rule prepare_stock_reservation_groups)
  have g2: "groups_step sp s3"
  proof (rule groups_step_same)
    show "group_ids s3 = group_ids sp" using R CG by simp
    show "groups s3 = groups sp" using R CG by simp
    show "\<forall>x. map_option order_facts (orders s3 x) = map_option order_facts (orders sp x)"
      using R C by simp
    show "\<forall>x. map_option procurement_group_id (orders s3 x) =
              map_option procurement_group_id (orders sp x)"
      using R C by simp
  qed
  show "groups_step s s3" using g1 g2 by (rule groups_step_trans)
  from P obtain so2 where so2: "orders sp (order_id la) = Some so2"
    "procurement_group_id so2 = group_id vals"
    by blast
  have "map_option procurement_group_id (orders s3 (order_id la)) =
      map_option procurement_group_id (orders sp (order_id la))"
    using R C by simp
  with so2 obtain so3 where "orders s3 (order_id la) = Some so3"
    "procurement_group_id so3 = group_id vals"
    by auto
  then show "sale_line_id vals = Some a \<and>
         res_product_id vals = map_option product_ref (product_id la) \<and>
         res_product_uom vals = product_uom la \<and>
         res_product_uom_qty vals = product_uom_qty la \<and>
         res_price_unit vals = price_unit la \<and>
         group_id vals \<noteq> None \<and>
         (\<exists>so3. orders s3 (order_id la) = Some so3 \<and> procurement_group_id so3 = group_id vals)"
    using P by blast
qed

lemma acquire_loop_Cons_Inr:
  assumes "acquire_loop dv nt (a # ls) acc s = (s1, Inr out)"
  obtains (skip) la where "lines s a = Some la" "\<not> is_stock_reservable la"
      "acquire_loop dv nt ls acc s = (s1, Inr out)"
    | (make) la sp vals s2 r s3 where "lines s a = Some la" "is_stock_reservable la"
      "prepare_stock_reservation dv nt a s = (sp, Inr vals)"
      "reservation_create vals sp = (s2, r)"
      "recompute_on_create a s2 = (s3, Inr ())"
      "acquire_loop dv nt ls (recordset_union acc [r]) s3 = (s1, Inr out)"
proof -
  from assms obtain la where la: "lines s a = Some la"
    by (cases "lines s a") auto
  show ?thesis
  proof (cases "is_stock_reservable la")
    case False
    with la assms show ?thesis by (intro skip [of la]) simp_all
  next
    case True
    from assms la True obtain sp vals where
      prep: "prepare_stock_reservation dv nt a s = (sp, Inr vals)"
      by (cases "prepare_stock_reservation dv nt a s") (auto split: sum.splits)
    obtain s2 r where cr: "reservation_create vals sp = (s2, r)"
      by (cases "reservation_create vals sp") auto
    from assms la True prep cr obtain s3 where
      rc: "recompute_on_create a s2 = (s3, Inr ())"
      by (cases "recompute_on_create a s2") (auto split: sum.splits)
    from assms la True prep cr rc
    have "acquire_loop dv nt ls (recordset_union acc [r]) s3 = (s1, Inr out)" by simp
    with la True prep cr rc show ?thesis by (rule make)
  qed
qed


lemma acquire_loop_spec:
  "acquire_loop dv nt self acc s = (s1, Inr out) \<Longrightarrow> set acc \<subseteq> set (res_ids s) \<Longrightarrow>
     \<exists>new. out = acc @ new \<and> res_ids s1 = res_ids s @ new \<and> distinct new \<and>
       set new \<inter> set (res_ids s) = {} \<and>
       line_ids s1 = line_ids s \<and> rules s1 = rules s \<and>
       (\<forall>i. i \<notin> set new \<longrightarrow> reservations s1 i = reservations s i) \<and>
       (\<forall>l. lines s1 l =
          (if l \<in> set self \<and> reservable_line s l
           then map_option (\<lambda>lr. lr\<lparr>is_stock_reservable := False\<rparr>) (lines s l)
           else lines s l)) \<and>
       (\<forall>l. length (filter (\<lambda>r. map_option sale_line_id (reservations s1 r) = Some (Some l)) new) =
          (if l \<in> set self \<and> reservable_line s l then 1 else 0)) \<and>
       (\<forall>r\<in>set new. \<exists>rv l lr. reservations s1 r = Some rv \<and> sale_line_id rv = Some l \<and>
          l \<in> set self \<and> lines s l = Some lr \<and> is_stock_reservable lr \<and>
          res_product_id rv = map_option product_ref (product_id lr) \<and>
          res_product_uom rv = product_uom lr \<and>
          res_product_uom_qty rv = product_uom_qty lr \<and>
          res_price_unit rv = price_unit lr \<and>
          group_id rv \<noteq> None \<and>
          (\<exists>so1. orders s1 (order_id lr) = Some so1 \<and> procurement_group_id so1 = group_id rv)) \<and>
       groups_step s s1"
proof (induction self arbitrary: acc s)
  case Nil
  then have e: "s1 = s" "out = acc" by simp_all
  show ?case unfolding e using groups_step_refl [of s] by (intro exI [of _ "[]"]) simp
next
  case (Cons a ls)
  from Cons.prems(1) show ?case
  proof (cases rule: acquire_loop_Cons_Inr)
    case (skip la)
    from Cons.IH [OF skip(3) Cons.prems(2)] obtain new where
      n: "out = acc @ new" "res_ids s1 = res_ids s @ new" "distinct new"
        "set new \<inter> set (res_ids s) = {}" "line_ids s1 = line_ids s" "rules s1 = rules s"
        "\<forall>i. i \<notin> set new \<longrightarrow> reservations s1 i = reservations s i"
      and nl: "\<forall>l. lines s1 l =
          (if l \<in> set ls \<and> reservable_line s l
           then map_option (\<lambda>lr. lr\<lparr>is_stock_reservable := False\<rparr>) (lines s l)
           else lines s l)"
      and nc: "\<forall>l. length (filter (\<lambda>r. map_option sale_line_id (reservations s1 r) = Some (Some l)) new) =
          (if l \<in> set ls \<and> reservable_line s l then 1 else 0)"
      and np: "\<forall>r\<in>set new. \<exists>rv l lr. reservations s1 r = Some rv \<and> sale_line_id rv = Some l \<and>
          l \<in> set ls \<and> lines s l = Some lr \<and> is_stock_reservable lr \<and>
          res_product_id rv = map_option product_ref (product_id lr) \<and>
          res_product_uom rv = product_uom lr \<and>
          res_product_uom_qty rv = product_uom_qty lr \<and>
          res_price_unit rv = price_unit lr \<and>
          group_id rv \<noteq> None \<and>
          (\<exists>so1. orders s1 (order_id lr) = Some so1 \<and> procurement_group_id so1 = group_id rv)"
      and ng: "groups_step s s1"
      by blast
    have ml: "\<forall>l. lines s1 l =
          (if l \<in> set (a # ls) \<and> reservable_line s l
           then map_option (\<lambda>lr. lr\<lparr>is_stock_reservable := False\<rparr>) (lines s l)
           else lines s l)"
      using nl skip(1,2) by auto
    have mc: "\<forall>l. length (filter (\<lambda>r. map_option sale_line_id (reservations s1 r) = Some (Some l)) new) =
          (if l \<in> set (a # ls) \<and> reservable_line s l then 1 else 0)"
      using nc skip(1,2) by auto
    have mp: "\<forall>r\<in>set new. \<exists>rv l lr. reservations s1 r = Some rv \<and> sale_line_id rv = Some l \<and>
          l \<in> set (a # ls) \<and> lines s l = Some lr \<and> is_stock_reservable lr \<and>
          res_product_id rv = map_option product_ref (product_id lr) \<and>
          res_product_uom rv = product_uom lr \<and>
          res_product_uom_qty rv = product_uom_qty lr \<and>
          res_price_unit rv = price_unit lr \<and>
          group_id rv \<noteq> None \<and>
          (\<exists>so1. orders s1 (order_id lr) = Some so1 \<and> procurement_group_id so1 = group_id rv)"
    proof
      fix r assume "r \<in> set new"
      with np have "\<exists>rv l lr. reservations s1 r = Some rv \<and> sale_line_id rv = Some l \<and>
          l \<in> set ls \<and> lines s l = Some lr \<and> is_stock_reservable lr \<and>
          res_product_id rv = map_option product_ref (product_id lr) \<and>
          res_product_uom rv = product_uom lr \<and>
          res_product_uom_qty rv = product_uom_qty lr \<and>
          res_price_unit rv = price_unit lr \<and>
          group_id rv \<noteq> None \<and>
          (\<exists>so1. orders s1 (order_id lr) = Some so1 \<and> procurement_group_id so1 = group_id rv)" by blast
      then show "\<exists>rv l lr. reservations s1 r = Some rv \<and> sale_line_id rv = Some l \<and>
          l \<in> set (a # ls) \<and> lines s l = Some lr \<and> is_stock_reservable lr \<and>
          res_product_id rv = map_option product_ref (product_id lr) \<and>
          res_product_uom rv = product_uom lr \<and>
          res_product_uom_qty rv = product_uom_qty lr \<and>
          res_price_unit rv = price_unit lr \<and>
          group_id rv \<noteq> None \<and>
          (\<exists>so1. orders s1 (order_id lr) = Some so1 \<and> procurement_group_id so1 = group_id rv)"
        by (metis list.set_intros(2))
    qed
    show ?thesis using n ml mc mp ng by blast
  next
    case (make la sp vals s2 r s3)
    note S = acquire_step [OF make(1,3,4,5)]
    from S(1) Cons.prems(2) have "r \<notin> set acc" by auto
    then have un: "recordset_union acc [r] = acc @ [r]"
      by (simp add: recordset_union_def ordered_ids_def)
    have rest: "acquire_loop dv nt ls (acc @ [r]) s3 = (s1, Inr out)"
      using make(6) un by simp
    have sub: "set (acc @ [r]) \<subseteq> set (res_ids s3)"
      using Cons.prems(2) S(2) by auto
    from Cons.IH [OF rest sub] obtain new' where
      n1: "out = (acc @ [r]) @ new'" and n2: "res_ids s1 = res_ids s3 @ new'"
      and n3: "distinct new'" and n4: "set new' \<inter> set (res_ids s3) = {}"
      and n5: "line_ids s1 = line_ids s3" "rules s1 = rules s3"
      and n6: "\<forall>i. i \<notin> set new' \<longrightarrow> reservations s1 i = reservations s3 i"
      and nl: "\<forall>l. lines s1 l =
          (if l \<in> set ls \<and> reservable_line s3 l
           then map_option (\<lambda>lr. lr\<lparr>is_stock_reservable := False\<rparr>) (lines s3 l)
           else lines s3 l)"
      and nc: "\<forall>l. length (filter (\<lambda>r. map_option sale_line_id (reservations s1 r) = Some (Some l)) new') =
          (if l \<in> set ls \<and> reservable_line s3 l then 1 else 0)"
      and np: "\<forall>r\<in>set new'. \<exists>rv l lr. reservations s1 r = Some rv \<and> sale_line_id rv = Some l \<and>
          l \<in> set ls \<and> lines s3 l = Some lr \<and> is_stock_reservable lr \<and>
          res_product_id rv = map_option product_ref (product_id lr) \<and>
          res_product_uom rv = product_uom lr \<and>
          res_product_uom_qty rv = product_uom_qty lr \<and>
          res_price_unit rv = price_unit lr \<and>
          group_id rv \<noteq> None \<and>
          (\<exists>so1. orders s1 (order_id lr) = Some so1 \<and> procurement_group_id so1 = group_id rv)"
      and ng: "groups_step s3 s1"
      by blast
    have rnew: "r \<notin> set new'" using n4 S(2) by auto
    have r1: "reservations s1 r = Some vals" using n6 rnew S(3) by simp
    have l3: "lines s3 l = (if l = a then Some (la\<lparr>is_stock_reservable := False\<rparr>) else lines s l)"
      for l using S(6) by simp
    have fl3: "reservable_line s3 l = (l \<noteq> a \<and> reservable_line s l)" for l
      by (simp add: l3)
    have ra: "reservable_line s a" using make(1,2) by simp
    have m1: "out = acc @ (r # new')" using n1 by simp
    have m2: "res_ids s1 = res_ids s @ (r # new')" using n2 S(2) by simp
    have m3: "distinct (r # new')" using n3 rnew by simp
    have m4: "set (r # new') \<inter> set (res_ids s) = {}" using n4 S(1,2) by auto
    have m5: "line_ids s1 = line_ids s" "rules s1 = rules s" using n5 S(4,5) by simp_all
    have m6: "\<forall>i. i \<notin> set (r # new') \<longrightarrow> reservations s1 i = reservations s i"
      using n6 S(3) by simp
    have ml: "\<forall>l. lines s1 l =
          (if l \<in> set (a # ls) \<and> reservable_line s l
           then map_option (\<lambda>lr. lr\<lparr>is_stock_reservable := False\<rparr>) (lines s l)
           else lines s l)"
    proof
      fix l
      show "lines s1 l =
          (if l \<in> set (a # ls) \<and> reservable_line s l
           then map_option (\<lambda>lr. lr\<lparr>is_stock_reservable := False\<rparr>) (lines s l)
           else lines s l)"
      proof (cases "l = a")
        case True
        have "lines s1 a = lines s3 a" using nl fl3 [of a] by simp
        with True make(1,2) show ?thesis by (simp add: l3)
      next
        case False
        with nl [rule_format, of l] show ?thesis by (simp add: l3)
      qed
    qed
    have mc: "\<forall>l. length (filter (\<lambda>r. map_option sale_line_id (reservations s1 r) = Some (Some l)) (r # new')) =
          (if l \<in> set (a # ls) \<and> reservable_line s l then 1 else 0)"
    proof
      fix l
      have "length (filter (\<lambda>r. map_option sale_line_id (reservations s1 r) = Some (Some l)) new') =
          (if l \<in> set ls \<and> l \<noteq> a \<and> reservable_line s l then 1 else 0)"
        using nc [rule_format, of l] by (simp only: fl3)
      moreover have "(map_option sale_line_id (reservations s1 r) = Some (Some l)) = (l = a)"
        using r1 S(8) by auto
      ultimately show "length (filter (\<lambda>r. map_option sale_line_id (reservations s1 r) = Some (Some l)) (r # new')) =
          (if l \<in> set (a # ls) \<and> reservable_line s l then 1 else 0)"
        using ra by auto
    qed
    have mg: "groups_step s s1" using S(7) ng by (rule groups_step_trans)
    from S(8) obtain g so3 where g: "group_id vals = Some g"
      "orders s3 (order_id la) = Some so3" "procurement_group_id so3 = Some g"
      by auto
    from ng [THEN conjunct2, THEN conjunct2, THEN conjunct2, rule_format, OF g(2)] g(3)
    have grp: "\<exists>so1. orders s1 (order_id la) = Some so1 \<and>
        procurement_group_id so1 = group_id vals"
      using g(1) by auto
    have mp: "\<forall>x\<in>set (r # new'). \<exists>rv l lr. reservations s1 x = Some rv \<and> sale_line_id rv = Some l \<and>
          l \<in> set (a # ls) \<and> lines s l = Some lr \<and> is_stock_reservable lr \<and>
          res_product_id rv = map_option product_ref (product_id lr) \<and>
          res_product_uom rv = product_uom lr \<and>
          res_product_uom_qty rv = product_uom_qty lr \<and>
          res_price_unit rv = price_unit lr \<and>
          group_id rv \<noteq> None \<and>
          (\<exists>so1. orders s1 (order_id lr) = Some so1 \<and> procurement_group_id so1 = group_id rv)"
    proof
      fix x assume x: "x \<in> set (r # new')"
      show "\<exists>rv l lr. reservations s1 x = Some rv \<and> sale_line_id rv = Some l \<and>
          l \<in> set (a # ls) \<and> lines s l = Some lr \<and> is_stock_reservable lr \<and>
          res_product_id rv = map_option product_ref (product_id lr) \<and>
          res_product_uom rv = product_uom lr \<and>
          res_product_uom_qty rv = product_uom_qty lr \<and>
          res_price_unit rv = price_unit lr \<and>
          group_id rv \<noteq> None \<and>
          (\<exists>so1. orders s1 (order_id lr) = Some so1 \<and> procurement_group_id so1 = group_id rv)"
      proof (cases "x = r")
        case True
        show ?thesis
          unfolding True
          using r1 make(1,2) S(8) grp
          by (intro exI [of _ vals] exI [of _ a] exI [of _ la]) simp
      next
        case False
        with x np obtain rv l lr where h: "reservations s1 x = Some rv" "sale_line_id rv = Some l"
          "l \<in> set ls" "lines s3 l = Some lr" "is_stock_reservable lr"
          "res_product_id rv = map_option product_ref (product_id lr)"
          "res_product_uom rv = product_uom lr"
          "res_product_uom_qty rv = product_uom_qty lr"
          "res_price_unit rv = price_unit lr"
          "group_id rv \<noteq> None"
          "\<exists>so1. orders s1 (order_id lr) = Some so1 \<and> procurement_group_id so1 = group_id rv"
          by auto
        from h(4,5) have "l \<noteq> a" by (auto simp: l3)
        with h(4) have "lines s l = Some lr" by (simp add: l3)
        with h show ?thesis
          by (intro exI [of _ rv] exI [of _ l] exI [of _ lr]) simp
      qed
    qed
    show ?thesis
      using m1 m2 m3 m4 m5 m6 ml mc mp mg by blast
  qed
qed


lemma acquire_loop_returns:
  "\<forall>l\<in>set self. \<exists>lr. lines s l = Some lr \<and>
       (is_stock_reservable lr \<longrightarrow> orders s (order_id lr) \<noteq> None) \<Longrightarrow>
     \<exists>s1 out. acquire_loop dv nt self acc s = (s1, Inr out)"
proof (induction self arbitrary: acc s)
  case Nil
  then show ?case by simp
next
  case (Cons a ls)
  from Cons.prems obtain la where la: "lines s a = Some la"
    "is_stock_reservable la \<longrightarrow> orders s (order_id la) \<noteq> None"
    by auto
  have tl: "\<forall>l\<in>set ls. \<exists>lr. lines s l = Some lr \<and>
       (is_stock_reservable lr \<longrightarrow> orders s (order_id lr) \<noteq> None)"
    using Cons.prems by simp
  show ?case
  proof (cases "is_stock_reservable la")
    case False
    with la Cons.IH [OF tl, of acc] show ?thesis by simp
  next
    case True
    with la prepare_stock_reservation_returns [of s a la dv nt]
    obtain sp vals where prep: "prepare_stock_reservation dv nt a s = (sp, Inr vals)"
      by blast
    obtain s2 r where cr: "reservation_create vals sp = (s2, r)"
      by (cases "reservation_create vals sp") auto
    note P = prepare_stock_reservation_Inr [OF la(1) prep]
    note C = reservation_create_spec [OF cr]
    have la2: "lines s2 a = Some la" using P C la(1) by simp
    have "orders s2 (order_id la) \<noteq> None"
      using la(2) True prepare_stock_reservation_orders [OF prep] C by simp
    from recompute_on_create_returns [OF la2 this]
    obtain s3 where rc: "recompute_on_create a s2 = (s3, Inr ())" by blast
    note S = acquire_step [OF la(1) prep cr rc]
    have "\<forall>l\<in>set ls. \<exists>lr. lines s3 l = Some lr \<and>
       (is_stock_reservable lr \<longrightarrow> orders s3 (order_id lr) \<noteq> None)"
    proof
      fix l assume "l \<in> set ls"
      with tl obtain lr where lr: "lines s l = Some lr"
        "is_stock_reservable lr \<longrightarrow> orders s (order_id lr) \<noteq> None"
        by blast
      have keep: "orders s x \<noteq> None \<Longrightarrow> orders s3 x \<noteq> None" for x
        using S(7) [THEN conjunct2, THEN conjunct2, THEN conjunct1, rule_format, of x]
        by (cases "orders s3 x") auto
      show "\<exists>lr. lines s3 l = Some lr \<and>
       (is_stock_reservable lr \<longrightarrow> orders s3 (order_id lr) \<noteq> None)"
      proof (cases "l = a")
        case True
        then show ?thesis by (simp add: S(6))
      next
        case False
        with lr keep show ?thesis by (simp add: S(6))
      qed
    qed
    from Cons.IH [OF this, of "recordset_union acc [r]"]
    show ?thesis using la True prep cr rc by simp
  qed
qed


lemma acquire_loop_count:
  assumes run: "acquire_loop dv nt self [] s = (s1, Inr created)"
  shows "length (reservation_ids s1 l) =
           length (reservation_ids s l) +
           (if l \<in> set self \<and> reservable_line s l then 1 else 0)"
proof -
  let ?link = "\<lambda>e i. case reservations e i of None \<Rightarrow> False | Some r \<Rightarrow> sale_line_id r = Some l"
  from acquire_loop_spec [OF run] obtain new where
    n: "created = new" "res_ids s1 = res_ids s @ new" "set new \<inter> set (res_ids s) = {}"
      "\<forall>i. i \<notin> set new \<longrightarrow> reservations s1 i = reservations s i"
      "\<forall>l. length (filter (\<lambda>r. map_option sale_line_id (reservations s1 r) = Some (Some l)) new) =
          (if l \<in> set self \<and> reservable_line s l then 1 else 0)"
    by auto
  have old: "filter (?link s1) (res_ids s) = filter (?link s) (res_ids s)"
  proof (rule filter_cong [OF refl])
    fix i assume "i \<in> set (res_ids s)"
    with n(3) have "i \<notin> set new" by auto
    with n(4) show "?link s1 i = ?link s i" by simp
  qed
  have "filter (?link s1) new =
      filter (\<lambda>r. map_option sale_line_id (reservations s1 r) = Some (Some l)) new"
    by (rule filter_cong [OF refl]) (auto split: option.splits)
  with n(5) have new: "length (filter (?link s1) new) =
      (if l \<in> set self \<and> reservable_line s l then 1 else 0)"
    by simp
  show ?thesis
    unfolding reservation_ids_def n(2) using old new by simp
qed

lemma acquire_loop_created:
  assumes run: "acquire_loop dv nt self [] s = (s1, Inr created)" and r: "r \<in> set created"
  shows "\<exists>rv l lr so. l \<in> set self \<and> reservations s1 r = Some rv \<and>
               sale_line_id rv = Some l \<and> lines s l = Some lr \<and> is_stock_reservable lr \<and>
               res_product_id rv = map_option product_ref (product_id lr) \<and>
               res_product_uom rv = product_uom lr \<and>
               res_product_uom_qty rv = product_uom_qty lr \<and>
               res_price_unit rv = price_unit lr \<and>
               orders s (order_id lr) = Some so \<and>
               (case procurement_group_id so of
                  Some g \<Rightarrow> group_id rv = Some g
                | None \<Rightarrow>
                    (\<exists>g. group_id rv = Some g \<and> g \<notin> set (group_ids s) \<and>
                       g \<in> set (group_ids s1) \<and>
                       groups s1 g = Some (group_of_order (order_id lr) so))) \<and>
               (\<exists>so1. orders s1 (order_id lr) = Some so1 \<and>
                  procurement_group_id so1 = group_id rv)"
proof -
  from acquire_loop_spec [OF run] obtain new where
    n: "created = new"
      "\<forall>r\<in>set new. \<exists>rv l lr. reservations s1 r = Some rv \<and> sale_line_id rv = Some l \<and>
          l \<in> set self \<and> lines s l = Some lr \<and> is_stock_reservable lr \<and>
          res_product_id rv = map_option product_ref (product_id lr) \<and>
          res_product_uom rv = product_uom lr \<and>
          res_product_uom_qty rv = product_uom_qty lr \<and>
          res_price_unit rv = price_unit lr \<and>
          group_id rv \<noteq> None \<and>
          (\<exists>so1. orders s1 (order_id lr) = Some so1 \<and> procurement_group_id so1 = group_id rv)"
    and gs: "groups_step s s1"
    by auto
  from n r obtain rv l lr so1 where h: "reservations s1 r = Some rv" "sale_line_id rv = Some l"
    "l \<in> set self" "lines s l = Some lr" "is_stock_reservable lr"
    "res_product_id rv = map_option product_ref (product_id lr)"
    "res_product_uom rv = product_uom lr"
    "res_product_uom_qty rv = product_uom_qty lr"
    "res_price_unit rv = price_unit lr"
    "group_id rv \<noteq> None"
    and so1: "orders s1 (order_id lr) = Some so1" "procurement_group_id so1 = group_id rv"
    by blast
  from gs [THEN conjunct2, THEN conjunct2, THEN conjunct1, rule_format, of "order_id lr"] so1(1)
  obtain so where so: "orders s (order_id lr) = Some so"
    by (cases "orders s (order_id lr)") auto
  from gs [THEN conjunct2, THEN conjunct2, THEN conjunct2, rule_format, OF so] so1(1)
  have c: "case procurement_group_id so of
              Some g \<Rightarrow> procurement_group_id so1 = Some g
            | None \<Rightarrow>
                procurement_group_id so1 = None \<or>
                (\<exists>g. procurement_group_id so1 = Some g \<and> g \<notin> set (group_ids s) \<and>
                   g \<in> set (group_ids s1) \<and>
                   groups s1 g = Some (group_of_order (order_id lr) so))"
    by auto
  have grp: "case procurement_group_id so of
                  Some g \<Rightarrow> group_id rv = Some g
                | None \<Rightarrow>
                    (\<exists>g. group_id rv = Some g \<and> g \<notin> set (group_ids s) \<and>
                       g \<in> set (group_ids s1) \<and>
                       groups s1 g = Some (group_of_order (order_id lr) so))"
    using c so1(2) h(10) by (cases "procurement_group_id so") auto
  show ?thesis
    using h so so1 grp
    by (intro exI [of _ rv] exI [of _ l] exI [of _ lr] exI [of _ so]) simp
qed

text \<open>
  C6. For every recordset of lines: the loop of \<^verbatim>\<open>acquire_stock_reservation\<close> returns
  when every line has a record and the order of every reservable line has one. It leaves
  every reservable line of the recordset with exactly one more reservation, also a line
  the recordset holds twice, and every other line with the reservations it had. Each
  reservation it creates is new, is linked to a reservable line of the recordset, and
  carries that line's product, unit of measure, quantity and unit price. Its group is the
  group of the line's order: the one the order had, or, when the order had none, a new
  procurement group made with the order's name, picking policy, id and shipping partner,
  which the order now has. Groups are only added, and an order with a group keeps it. The
  reservations that existed are unchanged, and the lines served are stored as not
  reservable. \<^verbatim>\<open>reserve\<close> is then called on the created reservations and, when it
  returns, the result is True. \<^verbatim>\<open>release_stock_reservation\<close> calls \<^verbatim>\<open>release\<close> on the
  reservations linked to the lines and, when it returns, the result is True.
\<close>

theorem acquire_stock_reservation_creates:
  "((\<forall>l\<in>set self. \<exists>lr. lines s l = Some lr \<and>
       (is_stock_reservable lr \<longrightarrow> orders s (order_id lr) \<noteq> None)) \<longrightarrow>
      (\<exists>s1 created. acquire_loop dv nt self [] s = (s1, Inr created))) \<and>
   (\<forall>s1 created. acquire_loop dv nt self [] s = (s1, Inr created) \<longrightarrow>
            acquire_stock_reservation reserve dv nt self s =
              (case reserve created s1 of
                 (s2, Inl e) \<Rightarrow> (s2, Inl (HostError e))
               | (s2, Inr u) \<Rightarrow> (s2, Inr True)) \<and>
            res_ids s1 = res_ids s @ created \<and> distinct created \<and>
            set created \<inter> set (res_ids s) = {} \<and>
            (\<forall>i\<in>set (res_ids s). reservations s1 i = reservations s i) \<and>
            (\<forall>l. length (reservation_ids s1 l) =
               length (reservation_ids s l) +
               (if l \<in> set self \<and> reservable_line s l then 1 else 0)) \<and>
            (\<forall>r\<in>set created. \<exists>rv l lr so. l \<in> set self \<and> reservations s1 r = Some rv \<and>
               sale_line_id rv = Some l \<and> lines s l = Some lr \<and> is_stock_reservable lr \<and>
               res_product_id rv = map_option product_ref (product_id lr) \<and>
               res_product_uom rv = product_uom lr \<and>
               res_product_uom_qty rv = product_uom_qty lr \<and>
               res_price_unit rv = price_unit lr \<and>
               orders s (order_id lr) = Some so \<and>
               (case procurement_group_id so of
                  Some g \<Rightarrow> group_id rv = Some g
                | None \<Rightarrow>
                    (\<exists>g. group_id rv = Some g \<and> g \<notin> set (group_ids s) \<and>
                       g \<in> set (group_ids s1) \<and>
                       groups s1 g = Some (group_of_order (order_id lr) so))) \<and>
               (\<exists>so1. orders s1 (order_id lr) = Some so1 \<and>
                  procurement_group_id so1 = group_id rv)) \<and>
            (\<forall>l. lines s1 l =
               (if l \<in> set self \<and> reservable_line s l
                then map_option (\<lambda>lr. lr\<lparr>is_stock_reservable := False\<rparr>) (lines s l)
                else lines s l)) \<and>
            groups_step s s1) \<and>
   release_stock_reservation release self s =
     (case release (mapped_reservation_ids self s) s of
        (s1, Inl e) \<Rightarrow> (s1, Inl (HostError e))
      | (s1, Inr u) \<Rightarrow> (s1, Inr True)) \<and>
   set (mapped_reservation_ids self s) = (\<Union>l\<in>set self. set (reservation_ids s l))"
proof -
  have returns: "\<exists>s1 created. acquire_loop dv nt self [] s = (s1, Inr created)"
    if "\<forall>l\<in>set self. \<exists>lr. lines s l = Some lr \<and>
             (is_stock_reservable lr \<longrightarrow> orders s (order_id lr) \<noteq> None)"
    using that by (rule acquire_loop_returns)
  have after: "acquire_stock_reservation reserve dv nt self s =
              (case reserve created s1 of
                 (s2, Inl e) \<Rightarrow> (s2, Inl (HostError e))
               | (s2, Inr u) \<Rightarrow> (s2, Inr True)) \<and>
            res_ids s1 = res_ids s @ created \<and> distinct created \<and>
            set created \<inter> set (res_ids s) = {} \<and>
            (\<forall>i\<in>set (res_ids s). reservations s1 i = reservations s i) \<and>
            (\<forall>l. length (reservation_ids s1 l) =
               length (reservation_ids s l) +
               (if l \<in> set self \<and> reservable_line s l then 1 else 0)) \<and>
            (\<forall>r\<in>set created. \<exists>rv l lr so. l \<in> set self \<and> reservations s1 r = Some rv \<and>
               sale_line_id rv = Some l \<and> lines s l = Some lr \<and> is_stock_reservable lr \<and>
               res_product_id rv = map_option product_ref (product_id lr) \<and>
               res_product_uom rv = product_uom lr \<and>
               res_product_uom_qty rv = product_uom_qty lr \<and>
               res_price_unit rv = price_unit lr \<and>
               orders s (order_id lr) = Some so \<and>
               (case procurement_group_id so of
                  Some g \<Rightarrow> group_id rv = Some g
                | None \<Rightarrow>
                    (\<exists>g. group_id rv = Some g \<and> g \<notin> set (group_ids s) \<and>
                       g \<in> set (group_ids s1) \<and>
                       groups s1 g = Some (group_of_order (order_id lr) so))) \<and>
               (\<exists>so1. orders s1 (order_id lr) = Some so1 \<and>
                  procurement_group_id so1 = group_id rv)) \<and>
            (\<forall>l. lines s1 l =
               (if l \<in> set self \<and> reservable_line s l
                then map_option (\<lambda>lr. lr\<lparr>is_stock_reservable := False\<rparr>) (lines s l)
                else lines s l)) \<and>
            groups_step s s1"
    if run: "acquire_loop dv nt self [] s = (s1, Inr created)" for s1 created
  proof -
    from acquire_loop_spec [OF run] obtain new where
      n: "created = new" "res_ids s1 = res_ids s @ new" "distinct new"
        "set new \<inter> set (res_ids s) = {}"
        "\<forall>i. i \<notin> set new \<longrightarrow> reservations s1 i = reservations s i"
      and nl: "\<forall>l. lines s1 l =
               (if l \<in> set self \<and> reservable_line s l
                then map_option (\<lambda>lr. lr\<lparr>is_stock_reservable := False\<rparr>) (lines s l)
                else lines s l)"
      and gs: "groups_step s s1"
      by auto
    have a: "acquire_stock_reservation reserve dv nt self s =
              (case reserve created s1 of
                 (s2, Inl e) \<Rightarrow> (s2, Inl (HostError e))
               | (s2, Inr u) \<Rightarrow> (s2, Inr True))"
      by (simp add: acquire_stock_reservation_def run)
    have b: "res_ids s1 = res_ids s @ created" "distinct created"
      "set created \<inter> set (res_ids s) = {}"
      using n by simp_all
    have old: "\<forall>i\<in>set (res_ids s). reservations s1 i = reservations s i"
      using n(4,5) by auto
    have cnt: "\<forall>l. length (reservation_ids s1 l) =
               length (reservation_ids s l) +
               (if l \<in> set self \<and> reservable_line s l then 1 else 0)"
      using acquire_loop_count [OF run] by blast
    have each: "\<forall>r\<in>set created. \<exists>rv l lr so. l \<in> set self \<and> reservations s1 r = Some rv \<and>
               sale_line_id rv = Some l \<and> lines s l = Some lr \<and> is_stock_reservable lr \<and>
               res_product_id rv = map_option product_ref (product_id lr) \<and>
               res_product_uom rv = product_uom lr \<and>
               res_product_uom_qty rv = product_uom_qty lr \<and>
               res_price_unit rv = price_unit lr \<and>
               orders s (order_id lr) = Some so \<and>
               (case procurement_group_id so of
                  Some g \<Rightarrow> group_id rv = Some g
                | None \<Rightarrow>
                    (\<exists>g. group_id rv = Some g \<and> g \<notin> set (group_ids s) \<and>
                       g \<in> set (group_ids s1) \<and>
                       groups s1 g = Some (group_of_order (order_id lr) so))) \<and>
               (\<exists>so1. orders s1 (order_id lr) = Some so1 \<and>
                  procurement_group_id so1 = group_id rv)"
      using acquire_loop_created [OF run] by blast
    show ?thesis
      using a b old cnt each nl gs [THEN conjunct1] gs [THEN conjunct2, THEN conjunct1]
        gs [THEN conjunct2, THEN conjunct2, THEN conjunct1]
        gs [THEN conjunct2, THEN conjunct2, THEN conjunct2]
      by (intro conjI)
  qed
  have rel: "release_stock_reservation release self s =
           (case release (mapped_reservation_ids self s) s of
              (s1, Inl e) \<Rightarrow> (s1, Inl (HostError e))
            | (s1, Inr u) \<Rightarrow> (s1, Inr True))"
    by (simp add: release_stock_reservation_def)
  have ids: "set (mapped_reservation_ids self s) = (\<Union>l\<in>set self. set (reservation_ids s l))"
    by (simp add: mapped_reservation_ids_def ordered_ids_def)
  from after have after': "\<forall>s1 created. acquire_loop dv nt self [] s = (s1, Inr created) \<longrightarrow>
            acquire_stock_reservation reserve dv nt self s =
              (case reserve created s1 of
                 (s2, Inl e) \<Rightarrow> (s2, Inl (HostError e))
               | (s2, Inr u) \<Rightarrow> (s2, Inr True)) \<and>
            res_ids s1 = res_ids s @ created \<and> distinct created \<and>
            set created \<inter> set (res_ids s) = {} \<and>
            (\<forall>i\<in>set (res_ids s). reservations s1 i = reservations s i) \<and>
            (\<forall>l. length (reservation_ids s1 l) =
               length (reservation_ids s l) +
               (if l \<in> set self \<and> reservable_line s l then 1 else 0)) \<and>
            (\<forall>r\<in>set created. \<exists>rv l lr so. l \<in> set self \<and> reservations s1 r = Some rv \<and>
               sale_line_id rv = Some l \<and> lines s l = Some lr \<and> is_stock_reservable lr \<and>
               res_product_id rv = map_option product_ref (product_id lr) \<and>
               res_product_uom rv = product_uom lr \<and>
               res_product_uom_qty rv = product_uom_qty lr \<and>
               res_price_unit rv = price_unit lr \<and>
               orders s (order_id lr) = Some so \<and>
               (case procurement_group_id so of
                  Some g \<Rightarrow> group_id rv = Some g
                | None \<Rightarrow>
                    (\<exists>g. group_id rv = Some g \<and> g \<notin> set (group_ids s) \<and>
                       g \<in> set (group_ids s1) \<and>
                       groups s1 g = Some (group_of_order (order_id lr) so))) \<and>
               (\<exists>so1. orders s1 (order_id lr) = Some so1 \<and>
                  procurement_group_id so1 = group_id rv)) \<and>
            (\<forall>l. lines s1 l =
               (if l \<in> set self \<and> reservable_line s l
                then map_option (\<lambda>lr. lr\<lparr>is_stock_reservable := False\<rparr>) (lines s l)
                else lines s l)) \<and>
            groups_step s s1"
    by blast
  from returns have returns': "(\<forall>l\<in>set self. \<exists>lr. lines s l = Some lr \<and>
       (is_stock_reservable lr \<longrightarrow> orders s (order_id lr) \<noteq> None)) \<longrightarrow>
      (\<exists>s1 created. acquire_loop dv nt self [] s = (s1, Inr created))"
    by blast
  show ?thesis
    using returns' after' rel ids by (intro conjI)
qed


lemmas ex_acquire_defs = acquire_stock_reservation_def prepare_stock_reservation_def
  reservation_create_def group_create_def fresh_id_def recordset_union_def ordered_ids_def
  recompute_on_create_def reservable_value_def get_procure_method_def get_line_rule_def
  search_rules_def product_route_ids_def warehouse_domain_def route_in_def
  scan_order_line_def order_line_def Let_def
  reservation_ids_def ex_env_def ex_line_def ex_res_def ex_order_def

lemma ex_acquire_group:
  "map_option procurement_group_id
     (orders (fst (acquire_loop None None [13, 11, 13] [] ex_env)) 5) = Some (Some (Suc 0))"
  "groups (fst (acquire_loop None None [13, 11, 13] [] ex_env)) (Suc 0) =
     Some \<lparr>pg_name = ''SO005'', move_type = ''direct'', sale_id = 5, pg_partner_id = Some 7\<rparr>"
  "snd (acquire_loop None None [13, 11, 13] [] ex_env) = Inr [24]"
  by (simp_all add: ex_acquire_defs)


theorem acquire_stock_reservation_creates_witness:
  "\<exists>s1 created. acquire_loop None None [13, 11, 13] [] ex_env = (s1, Inr created) \<and>
     created = [24] \<and>
     length (reservation_ids s1 13) = 1 \<and> length (reservation_ids s1 11) = 1 \<and>
     acquire_stock_reservation (\<lambda>ids s. (s, Inr True)) None None [13, 11, 13] ex_env =
       (s1, Inr True) \<and>
     map_option procurement_group_id (orders ex_env 5) = Some None \<and>
     map_option procurement_group_id (orders s1 5) = Some (Some (Suc 0)) \<and>
     groups s1 (Suc 0) =
       Some \<lparr>pg_name = ''SO005'', move_type = ''direct'', sale_id = 5, pg_partner_id = Some 7\<rparr>"
proof -
  note main = acquire_stock_reservation_creates
    [of "[13, 11, 13]" ex_env None None "\<lambda>ids s. (s, Inr True)" "\<lambda>ids s. (s, Inr True)"]
  have pre: "\<forall>l\<in>set [13, 11, 13]. \<exists>lr. lines ex_env l = Some lr \<and>
             (is_stock_reservable lr \<longrightarrow> orders ex_env (order_id lr) \<noteq> None)"
    by (simp add: ex_env_def ex_line_def)
  from main [THEN conjunct1, THEN mp, OF pre]
  obtain s1 created where run: "acquire_loop None None [13, 11, 13] [] ex_env = (s1, Inr created)"
    by (elim exE)
  have s1: "s1 = fst (acquire_loop None None [13, 11, 13] [] ex_env)"
    and cr: "created = [24]"
    using run ex_acquire_group(3) by simp_all
  note after = main [THEN conjunct2, THEN conjunct1, rule_format, OF run]
  note props = after [THEN conjunct1]
    after [THEN conjunct2, THEN conjunct2, THEN conjunct2, THEN conjunct2,
      THEN conjunct2, THEN conjunct1]
  have r11: "length (reservation_ids ex_env 11) = 1" and r13: "length (reservation_ids ex_env 13) = 0"
    by (simp_all add: ex_reservation_ids)
  have fl: "\<not> reservable_line ex_env 11" "reservable_line ex_env 13"
    by (simp_all add: ex_env_def ex_line_def)
  have a: "length (reservation_ids s1 13) = 1"
    using props(2) [rule_format, of 13] r13 fl(2) by simp
  have b: "length (reservation_ids s1 11) = 1"
    using props(2) [rule_format, of 11] r11 fl(1) by simp
  have c: "acquire_stock_reservation (\<lambda>ids s. (s, Inr True)) None None [13, 11, 13] ex_env =
       (s1, Inr True)"
    using props(1) by simp
  have d: "map_option procurement_group_id (orders ex_env 5) = Some None"
    by (simp add: ex_env_def ex_order_def)
  show ?thesis
    using run cr a b c d ex_acquire_group(1,2) [folded s1]
    by (intro exI [of _ s1] exI [of _ created] conjI)
qed


text \<open>
  C9. After a first call of \<^verbatim>\<open>acquire_stock_reservation\<close> and a run of the line-level
  compute on the recordset, a second run of the loop of \<^verbatim>\<open>acquire_stock_reservation\<close>
  creates no reservation for a line of the recordset that has a reservation after the
  first call: the reservations of that line are the same, and none of the created
  reservations is linked to it.
\<close>

theorem acquire_stock_reservation_idempotent:
  assumes first: "acquire_stock_reservation reserve dv nt self s = (s1, Inr True)"
    and comp: "compute_is_stock_reservation self s1 = (s2, Inr ())"
    and second: "acquire_loop dv' nt' self [] s2 = (s3, Inr created)"
    and l: "l \<in> set self"
    and has: "reservation_ids s1 l \<noteq> []"
  shows "reservation_ids s3 l = reservation_ids s1 l \<and>
         (\<forall>r\<in>set created. \<forall>rv. reservations s3 r = Some rv \<longrightarrow> sale_line_id rv \<noteq> Some l)"
proof -
  from compute_is_stock_reservation_sets [OF comp l]
  obtain lr b where h: "lines s1 l = Some lr" "reservable_value s1 l lr = Inr b"
    "lines s2 l = Some (lr\<lparr>is_stock_reservable := b\<rparr>)"
    by blast
  from reservable_value_reserved [OF has h(2)] have nb: "\<not> b" .
  with h(3) have skip: "\<not> reservable_line s2 l" by simp
  note fr = compute_is_stock_reservation_frame [OF comp]
  have r21: "reservation_ids s2 l = reservation_ids s1 l"
    using fr by (intro reservation_ids_cong) simp_all
  let ?link = "\<lambda>e i. case reservations e i of None \<Rightarrow> False | Some r \<Rightarrow> sale_line_id r = Some l"
  from acquire_loop_spec [OF second] obtain new where
    n: "created = new" "res_ids s3 = res_ids s2 @ new" "set new \<inter> set (res_ids s2) = {}"
      "\<forall>i. i \<notin> set new \<longrightarrow> reservations s3 i = reservations s2 i"
      "\<forall>r\<in>set new. \<exists>rv l lr. reservations s3 r = Some rv \<and> sale_line_id rv = Some l \<and>
          l \<in> set self \<and> lines s2 l = Some lr \<and> is_stock_reservable lr \<and>
          res_product_id rv = map_option product_ref (product_id lr) \<and>
          res_product_uom rv = product_uom lr \<and>
          res_product_uom_qty rv = product_uom_qty lr \<and>
          res_price_unit rv = price_unit lr \<and>
          group_id rv \<noteq> None \<and>
          (\<exists>so1. orders s3 (order_id lr) = Some so1 \<and> procurement_group_id so1 = group_id rv)"
    by auto
  have none: "sale_line_id rv \<noteq> Some l" if "r \<in> set new" "reservations s3 r = Some rv" for r rv
  proof
    assume eq: "sale_line_id rv = Some l"
    from n(5) that(1) obtain rv' l' lr' where h': "reservations s3 r = Some rv'"
      "sale_line_id rv' = Some l'" "lines s2 l' = Some lr'" "is_stock_reservable lr'"
      by blast
    from h'(1) that(2) have "rv' = rv" by simp
    with h'(2) eq have "l' = l" by simp
    with h'(3,4) skip show False by simp
  qed
  have old: "filter (?link s3) (res_ids s2) = filter (?link s2) (res_ids s2)"
  proof (rule filter_cong [OF refl])
    fix i assume "i \<in> set (res_ids s2)"
    with n(3) have "i \<notin> set new" by auto
    with n(4) show "?link s3 i = ?link s2 i" by simp
  qed
  have new: "filter (?link s3) new = []"
    using none by (auto simp: filter_empty_conv split: option.splits)
  have "reservation_ids s3 l = reservation_ids s2 l"
    unfolding reservation_ids_def n(2) using old new by simp
  moreover have "\<forall>r\<in>set created. \<forall>rv. reservations s3 r = Some rv \<longrightarrow> sale_line_id rv \<noteq> Some l"
    using none n(1) by auto
  ultimately show ?thesis using r21 by simp
qed


lemma ex_first_call:
  "acquire_stock_reservation (\<lambda>ids s. (s, Inr True)) None None [11, 13] ex_env =
     (fst (acquire_stock_reservation (\<lambda>ids s. (s, Inr True)) None None [11, 13] ex_env), Inr True)"
  by (simp add: ex_acquire_defs)

lemma ex_first_call_ids:
  "reservation_ids (fst (acquire_stock_reservation (\<lambda>ids s. (s, Inr True)) None None [11, 13] ex_env)) 13 = [24]"
  by (simp add: ex_acquire_defs)


lemma ex_first_call_lines:
  "\<forall>l\<in>set [11, 13]. \<exists>lr.
      lines (fst (acquire_stock_reservation (\<lambda>ids s. (s, Inr True)) None None [11, 13] ex_env)) l = Some lr \<and>
      order_id lr = 5"
  "orders (fst (acquire_stock_reservation (\<lambda>ids s. (s, Inr True)) None None [11, 13] ex_env)) 5 \<noteq> None"
  by (simp_all add: ex_acquire_defs)

theorem acquire_stock_reservation_idempotent_witness:
  "\<exists>s1 s2 s3 created.
     acquire_stock_reservation (\<lambda>ids s. (s, Inr True)) None None [11, 13] ex_env = (s1, Inr True) \<and>
     compute_is_stock_reservation [11, 13] s1 = (s2, Inr ()) \<and>
     acquire_loop None None [11, 13] [] s2 = (s3, Inr created) \<and>
     reservation_ids ex_env 13 = [] \<and> reservation_ids s1 13 = [24] \<and>
     reservation_ids s3 13 = [24]"
proof -
  let ?R = "\<lambda>(ids :: nat list) (s :: env). (s, Inr True :: string + bool)"
  define s1 where "s1 = fst (acquire_stock_reservation ?R None None [11, 13] ex_env)"
  have first: "acquire_stock_reservation ?R None None [11, 13] ex_env = (s1, Inr True)"
    unfolding s1_def by (rule ex_first_call)
  have ids1: "reservation_ids s1 13 = [24]"
    unfolding s1_def by (rule ex_first_call_ids)
  have l1: "\<forall>l\<in>set [11, 13]. \<exists>lr. lines s1 l = Some lr \<and> order_id lr = 5"
    and o1: "orders s1 5 \<noteq> None"
    unfolding s1_def by (rule ex_first_call_lines)+
  have "\<forall>l\<in>set [11, 13]. \<exists>lr. lines s1 l = Some lr \<and> orders s1 (order_id lr) \<noteq> None"
    using l1 o1 by auto
  from compute_is_stock_reservation_returns [OF this]
  obtain s2 where comp: "compute_is_stock_reservation [11, 13] s1 = (s2, Inr ())"
    by (cases "compute_is_stock_reservation [11, 13] s1") auto
  have o2: "orders s2 = orders s1"
    using compute_is_stock_reservation_frame [OF comp] by simp
  have "\<forall>l\<in>set [11, 13]. \<exists>lr. lines s2 l = Some lr \<and>
       (is_stock_reservable lr \<longrightarrow> orders s2 (order_id lr) \<noteq> None)"
  proof
    fix l :: nat assume l: "l \<in> set [11, 13]"
    from compute_is_stock_reservation_sets [OF comp l]
    obtain lr b where h: "lines s1 l = Some lr"
      "lines s2 l = Some (lr\<lparr>is_stock_reservable := b\<rparr>)"
      by blast
    from l1 l h(1) have "order_id lr = 5" by auto
    with h(2) o1 o2 show "\<exists>lr. lines s2 l = Some lr \<and>
       (is_stock_reservable lr \<longrightarrow> orders s2 (order_id lr) \<noteq> None)"
      by simp
  qed
  from acquire_loop_returns [OF this, of None None "[]"]
  obtain s3 created where second: "acquire_loop None None [11, 13] [] s2 = (s3, Inr created)"
    by blast
  have l: "13 \<in> set [11, 13 :: nat]" by simp
  have has: "reservation_ids s1 13 \<noteq> []" using ids1 by simp
  from acquire_stock_reservation_idempotent [OF first comp second l has]
  have "reservation_ids s3 13 = reservation_ids s1 13 \<and>
         (\<forall>r\<in>set created. \<forall>rv. reservations s3 r = Some rv \<longrightarrow> sale_line_id rv \<noteq> Some 13)" .
  moreover have "reservation_ids ex_env 13 = []" by (rule ex_reservation_ids)
  ultimately show ?thesis using first comp second ids1 by (intro exI [of _ s1] exI [of _ s2] exI [of _ s3] exI [of _ created]) simp
qed

end
